theory Spec2Isabelle
  imports Main
begin

section \<open>Sessions (class \<open>Session\<close> of the table client)\<close>

text \<open>
  A \<open>Session\<close> object carries the server's \<open>sessionId\<close> and two private flags,
  \<open>beingDeleted\<close> (initially false) and \<open>free\<close> (initially true). The endpoint, the
  gRPC stub and the logger do not influence any of the properties below and are left out.
  Session objects are compared by identity in the pool, so the pool model further down
  keeps them in a heap and refers to them by address.
\<close>

record Session =
  sessionId :: string
  beingDeleted :: bool
  free :: bool

definition new_Session :: "string \<Rightarrow> Session" where
  "new_Session sid = \<lparr>sessionId = sid, beingDeleted = False, free = True\<rparr>"

definition isDeleted :: "Session \<Rightarrow> bool" where
  "isDeleted s = beingDeleted s"

definition isFree :: "Session \<Rightarrow> bool" where
  "isFree s = (free s \<and> \<not> isDeleted s)"

text \<open>\<open>acquire()\<close> clears the flag and returns the session itself.\<close>

definition Session_acquire :: "Session \<Rightarrow> Session" where
  "Session_acquire s = s\<lparr>free := False\<rparr>"

text \<open>
  \<open>release()\<close> sets the flag and emits \<open>SESSION_RELEASE\<close>; the listeners run in the pool
  model (\<open>on_SESSION_RELEASE\<close> below). This is the effect on the object itself.
\<close>

definition Session_release :: "Session \<Rightarrow> Session" where
  "Session_release s = s\<lparr>free := True\<rparr>"

subsection \<open>Requests sent to the server\<close>

datatype rpc =
    DeleteSessionRpc string
  | KeepAliveRpc string

text \<open>
  The outcome of a unary call as the method body sees it: either the awaited call and
  \<open>ensureOperationSucceeded\<close> pass, or one of them throws. \<open>ensureOperationSucceeded\<close>
  lives in \<open>utils\<close>, outside the sources at hand, so the outcome is an input of the model.
\<close>

datatype rpc_outcome = RpcOk | RpcThrows string

text \<open>
  \<open>delete()\<close>: a no-op that resolves when the session is already deleted; otherwise the
  flag is set first and one \<open>deleteSession\<close> request goes out, whose outcome decides
  whether the method resolves or throws. The result is the method's outcome, the object
  afterwards, and the requests issued. The decorators \<open>retryable\<close> and \<open>pessimizable\<close>
  are defined outside the sources at hand; the body is what is modelled.
\<close>

definition Session_delete :: "rpc_outcome \<Rightarrow> Session \<Rightarrow> (string + unit) \<times> Session \<times> rpc list" where
  "Session_delete resp s =
     (if isDeleted s then (Inr (), s, [])
      else (case resp of RpcOk \<Rightarrow> Inr () | RpcThrows e \<Rightarrow> Inl e,
            s\<lparr>beingDeleted := True\<rparr>,
            [DeleteSessionRpc (sessionId s)]))"

text \<open>
  Two calls in sequence, \<open>await s.delete(); await s.delete()\<close>: when the first one throws
  the second is not reached.
\<close>

definition Session_delete_twice ::
  "rpc_outcome \<Rightarrow> rpc_outcome \<Rightarrow> Session \<Rightarrow> (string + unit) \<times> Session \<times> rpc list" where
  "Session_delete_twice r1 r2 s =
     (case Session_delete r1 s of
        (Inl e, s1, sent1) \<Rightarrow> (Inl e, s1, sent1)
      | (Inr u, s1, sent1) \<Rightarrow>
          (case Session_delete r2 s1 of (res, s2, sent2) \<Rightarrow> (res, s2, sent1 @ sent2)))"

text \<open>The calls a holder of a session object can make on its lifecycle flags.\<close>

datatype session_call = CallAcquire | CallRelease | CallDelete rpc_outcome

fun apply_call :: "Session \<Rightarrow> session_call \<Rightarrow> Session" where
  "apply_call s CallAcquire = Session_acquire s"
| "apply_call s CallRelease = Session_release s"
| "apply_call s (CallDelete r) = fst (snd (Session_delete r s))"

subsection \<open>Transaction control of \<open>executeQuery\<close>\<close>

text \<open>
  Modelled from the spec: \<open>ITransactionSettings\<close> is a type of the generated protobuf
  bundle, which is not among the sources. Only the mode \<open>serializableReadWrite: {}\<close>
  occurs in the code; the other modes of the protocol are kept apart by a label.
\<close>

datatype ITransactionSettings = SerializableReadWrite | OtherTxMode string

text \<open>
  The union \<open>IExistingTransaction | INewTransaction\<close>: \<open>{txId}\<close> or \<open>{beginTx, commitTx}\<close>.
\<close>

datatype TxControl =
    ExistingTransaction string
  | NewTransaction ITransactionSettings bool

definition AUTO_TX :: TxControl where
  "AUTO_TX = NewTransaction SerializableReadWrite True"

text \<open>
  The first argument is a prepared query (its \<open>queryId\<close>) or YQL text; the request's
  \<open>query\<close> is \<open>{id}\<close> or \<open>{yqlText}\<close> accordingly.
\<close>

datatype QueryArg = PreparedQuery string | QueryText string

datatype IQuery = QueryById string | QueryYqlText string

type_synonym IQueryParams = "(string \<times> string) list"

record ExecuteDataQueryRequest =
  req_sessionId :: string
  req_txControl :: TxControl
  req_parameters :: IQueryParams
  req_query :: IQuery

text \<open>
  The request \<open>executeQuery\<close> hands to \<open>api.executeDataQuery\<close>. An omitted (undefined)
  argument is \<open>None\<close> and takes the parameter's default: \<open>{}\<close> for \<open>params\<close>, \<open>AUTO_TX\<close>
  for \<open>txControl\<close>.
\<close>

definition executeQuery_request ::
  "Session \<Rightarrow> QueryArg \<Rightarrow> IQueryParams option \<Rightarrow> TxControl option \<Rightarrow> ExecuteDataQueryRequest" where
  "executeQuery_request s query params txControl =
     (let params' = (case params of None \<Rightarrow> [] | Some p \<Rightarrow> p);
          txControl' = (case txControl of None \<Rightarrow> AUTO_TX | Some t \<Rightarrow> t);
          queryToExecute = (case query of QueryText q \<Rightarrow> QueryYqlText q
                                        | PreparedQuery i \<Rightarrow> QueryById i)
      in \<lparr>req_sessionId = sessionId s, req_txControl = txControl',
          req_parameters = params', req_query = queryToExecute\<rparr>)"

section \<open>IAM authentication (class \<open>IamAuthService\<close>)\<close>

record IIamCredentials =
  serviceAccountId :: string
  accessKeyId :: string
  privateKey :: string
  iamEndpoint :: string

text \<open>
  The three timeouts are private fields that are initialised once and never assigned
  again, so they are constants here (milliseconds).
\<close>

definition jwtExpirationTimeout :: int where
  "jwtExpirationTimeout = 3600 * 1000"

definition tokenExpirationTimeout :: int where
  "tokenExpirationTimeout = 120 * 1000"

definition tokenRequestTimeout :: int where
  "tokenRequestTimeout = 10 * 1000"

text \<open>
  The mutable part of the service: the cached token and the time it was stored
  (\<open>null\<close> until the first successful exchange). Times are milliseconds since the epoch.
\<close>

record IamAuthService =
  token :: string
  dbName :: string
  tokenTimestamp :: "int option"
  iamCredentials :: IIamCredentials

definition new_IamAuthService :: "IIamCredentials \<Rightarrow> string \<Rightarrow> IamAuthService" where
  "new_IamAuthService creds db =
     \<lparr>token = [], dbName = db, tokenTimestamp = None, iamCredentials = creds\<rparr>"

type_synonym Metadata = "(string \<times> string) list"

text \<open>
  \<open>Metadata\<close> is the class of \<open>@grpc/grpc-js\<close>. Its \<open>add(key, value)\<close> validates before
  it stores: for a key that is not binary, as the two keys used here, the value has to
  consist of printable ASCII characters (codes 32 to 126), and \<open>add\<close> throws otherwise.
\<close>

definition legal_value :: "string \<Rightarrow> bool" where
  "legal_value v = list_all (\<lambda>ch. 32 \<le> (of_char ch :: nat) \<and> (of_char ch :: nat) \<le> 126) v"

definition illegal_value_error :: "string \<Rightarrow> string" where
  "illegal_value_error v =
     ''Metadata string value '' @ [CHR 0x22] @ v @ [CHR 0x22] @ '' contains illegal characters''"

definition Metadata_add :: "string \<Rightarrow> string \<Rightarrow> Metadata \<Rightarrow> string + Metadata" where
  "Metadata_add key v m =
     (if legal_value v then Inr (m @ [(key, v)]) else Inl (illegal_value_error v))"

text \<open>
  \<open>makeCredentialsMetadata\<close>: a new \<open>Metadata\<close>, the ticket added first, then the database;
  the first \<open>add\<close> that throws ends the function.
\<close>

definition makeCredentialsMetadata :: "string \<Rightarrow> string \<Rightarrow> string + Metadata" where
  "makeCredentialsMetadata tok db =
     (case Metadata_add ''x-ydb-auth-ticket'' tok [] of
        Inl e \<Rightarrow> Inl e
      | Inr m \<Rightarrow> Metadata_add ''x-ydb-database'' db m)"

subsection \<open>The signed JWT\<close>

record JwtPayload =
  jwt_iss :: string
  jwt_aud :: string
  jwt_iat :: int
  jwt_exp :: int

record SignOptions =
  algorithm :: string
  keyid :: string

text \<open>
  \<open>jwt.sign(payload, key, options)\<close> is a call into the \<open>jsonwebtoken\<close> library; the
  token it returns is kept symbolic, as the three arguments it was made from. The library
  puts \<open>algorithm\<close> and \<open>keyid\<close> into the header as \<open>alg\<close> and \<open>kid\<close>.
\<close>

datatype Jwt = Jwt_sign JwtPayload string SignOptions

fun jwt_payload :: "Jwt \<Rightarrow> JwtPayload" where
  "jwt_payload (Jwt_sign payload key options) = payload"

text \<open>
  \<open>Math.round(t.toSeconds())\<close> for a time of \<open>ms\<close> milliseconds: \<open>ms / 1000\<close> rounded to
  the nearest integer, halves upwards. On integers this is \<open>(ms + 500) div 1000\<close> with
  the flooring division of HOL (a double holds \<open>ms / 1000\<close> to far better than the 0.001
  that separates it from the next half).
\<close>

definition round_toSeconds :: "int \<Rightarrow> int" where
  "round_toSeconds ms = (ms + 500) div 1000"

definition getJwtRequest :: "int \<Rightarrow> IamAuthService \<Rightarrow> Jwt" where
  "getJwtRequest now s =
     (let expires = now + jwtExpirationTimeout;
          payload = \<lparr>jwt_iss = serviceAccountId (iamCredentials s),
                     jwt_aud = ''https://iam.api.cloud.yandex.net/iam/v1/tokens'',
                     jwt_iat = round_toSeconds now,
                     jwt_exp = round_toSeconds expires\<rparr>;
          options = \<lparr>algorithm = ''PS256'', keyid = accessKeyId (iamCredentials s)\<rparr>
      in Jwt_sign payload (privateKey (iamCredentials s)) options)"

text \<open>
  \<open>sendTokenRequest\<close>: the \<open>create\<close> call on the IAM stub with the signed JWT, raced
  against a timer by \<open>withTimeout\<close> (of \<open>utils\<close>, not among the sources). The value is the
  request that goes out and the time limit it is given.
\<close>

record TokenRequest =
  request_jwt :: Jwt
  request_timeout :: int

definition sendTokenRequest :: "int \<Rightarrow> IamAuthService \<Rightarrow> TokenRequest" where
  "sendTokenRequest now s =
     \<lparr>request_jwt = getJwtRequest now s, request_timeout = tokenRequestTimeout\<rparr>"

subsection \<open>Expiry and refresh\<close>

definition expired :: "int \<Rightarrow> IamAuthService \<Rightarrow> bool" where
  "expired now s =
     (case tokenTimestamp s of None \<Rightarrow> True
      | Some ts \<Rightarrow> now - ts > tokenExpirationTimeout)"

text \<open>
  What \<open>await this.sendTokenRequest()\<close> yields: a response whose \<open>iamToken\<close> field may be
  absent, or an exception (an RPC error, or \<open>TimeoutExpired\<close> from \<open>withTimeout\<close>).
\<close>

datatype iam_response = IamResponse "string option" | IamThrows string

text \<open>
  The part of \<open>updateToken\<close> after the \<open>await\<close>, at clock reading \<open>now\<close>. A token is
  stored when the field is truthy: present and not the empty string.
\<close>

definition updateToken_resume :: "iam_response \<Rightarrow> int \<Rightarrow> IamAuthService \<Rightarrow> string + IamAuthService" where
  "updateToken_resume resp now s =
     (case resp of
        IamThrows e \<Rightarrow> Inl e
      | IamResponse None \<Rightarrow> Inl ''Received empty token from IAM!''
      | IamResponse (Some t) \<Rightarrow>
          if t \<noteq> [] then Inr (s\<lparr>token := t, tokenTimestamp := Some now\<rparr>)
          else Inl ''Received empty token from IAM!'')"

text \<open>
  \<open>getAuthMetadata\<close> runs in two pieces. Up to the first \<open>await\<close> it reads the clock
  (\<open>t0\<close>) for \<open>expired\<close> and, when expired, signs a JWT at clock reading \<open>t1\<close> and sends
  it: \<open>getAuthMetadata_begin\<close> gives the request sent, if any. Nothing of the object
  changes in this piece. When the response is there, \<open>getAuthMetadata_resume\<close> stores the
  token at clock reading \<open>t2\<close> and then builds the metadata; it throws when \<open>updateToken\<close>
  throws, with the service unchanged, and when \<open>makeCredentialsMetadata\<close> throws, with the
  token already stored.
\<close>

definition getAuthMetadata_begin :: "int \<Rightarrow> int \<Rightarrow> IamAuthService \<Rightarrow> TokenRequest option" where
  "getAuthMetadata_begin t0 t1 s = (if expired t0 s then Some (sendTokenRequest t1 s) else None)"

definition getAuthMetadata_resume ::
  "iam_response \<Rightarrow> int \<Rightarrow> IamAuthService \<Rightarrow> (string + Metadata) \<times> IamAuthService" where
  "getAuthMetadata_resume resp t2 s =
     (case updateToken_resume resp t2 s of
        Inl e \<Rightarrow> (Inl e, s)
      | Inr s' \<Rightarrow> (makeCredentialsMetadata (token s') (dbName s'), s'))"


subsection \<open>Calls that overlap\<close>

text \<open>
  Several callers may be inside \<open>getAuthMetadata\<close> at once, each suspended at its
  \<open>await\<close>. The state of that little system: the service object, the token requests sent
  so far, how many callers are waiting for a response, and the results delivered.
\<close>

record AuthWorld =
  service :: IamAuthService
  sent :: "TokenRequest list"
  awaiting :: nat
  delivered :: "(string + Metadata) list"

definition new_AuthWorld :: "IIamCredentials \<Rightarrow> string \<Rightarrow> AuthWorld" where
  "new_AuthWorld creds db =
     \<lparr>service = new_IamAuthService creds db, sent = [], awaiting = 0, delivered = []\<rparr>"

datatype auth_event =
    CallGetAuthMetadata int int
  | TokenResponse iam_response int

fun auth_step :: "auth_event \<Rightarrow> AuthWorld \<Rightarrow> AuthWorld" where
  "auth_step (CallGetAuthMetadata t0 t1) w =
     (case getAuthMetadata_begin t0 t1 (service w) of
        None \<Rightarrow> w\<lparr>delivered := delivered w
                    @ [makeCredentialsMetadata (token (service w)) (dbName (service w))]\<rparr>
      | Some rq \<Rightarrow> w\<lparr>sent := sent w @ [rq], awaiting := Suc (awaiting w)\<rparr>)"
| "auth_step (TokenResponse resp t2) w =
     (if awaiting w = 0 then w
      else (case getAuthMetadata_resume resp t2 (service w) of
              (res, s') \<Rightarrow> w\<lparr>service := s', awaiting := awaiting w - 1,
                              delivered := delivered w @ [res]\<rparr>))"

definition auth_run :: "auth_event list \<Rightarrow> AuthWorld \<Rightarrow> AuthWorld" where
  "auth_run es w = fold auth_step es w"

section \<open>The session pool (class \<open>SessionPool\<close>)\<close>

subsection \<open>Strings of numbers, and \<open>Array\<close> operations\<close>

text \<open>
  A timeout is a \<open>number\<close>; the model has the integral ones. A template literal prints an
  integer in decimal as long as the number holds it exactly, that is up to
  \<open>Number.MAX_SAFE_INTEGER\<close> in magnitude; \<open>Number_toString\<close> is that decimal string. Beyond
  that a number need not hold the integer, and from \<open>1e21\<close> on it is printed with an
  exponent, which \<open>Number_toString\<close> does not follow: what is said below about the text of
  a message is said for timeouts within the safe range.
\<close>

definition MAX_SAFE_INTEGER :: int where
  "MAX_SAFE_INTEGER = 9007199254740991"

fun digits :: "nat \<Rightarrow> string" where
  "digits n =
     (if n < 10 then [''0123456789'' ! n]
      else digits (n div 10) @ [''0123456789'' ! (n mod 10)])"

definition Number_toString :: "int \<Rightarrow> string" where
  "Number_toString i = (if i < 0 then CHR ''-'' # digits (nat (- i)) else digits (nat i))"

text \<open>
  Reading a decimal string back (the integer part of \<open>Number(s)\<close> on such a string): the
  digits are weighed by their position, after an optional minus sign.
\<close>

definition decimal_value :: "string \<Rightarrow> nat" where
  "decimal_value ds = foldl (\<lambda>v ch. 10 * v + (of_char ch - 48)) 0 ds"

definition Number_parse :: "string \<Rightarrow> int" where
  "Number_parse s =
     (case s of
        [] \<Rightarrow> 0
      | ch # ds \<Rightarrow> if ch = CHR ''-'' then - int (decimal_value ds) else int (decimal_value s))"

definition timeout_message :: "int \<Rightarrow> string" where
  "timeout_message t =
     ''No session became available within timeout of '' @ Number_toString t @ '' ms''"

text \<open>\<open>xs.indexOf(x)\<close>: the first position of \<open>x\<close>, or \<open>-1\<close>.\<close>

fun indexOf :: "'a list \<Rightarrow> 'a \<Rightarrow> int" where
  "indexOf [] x = - 1"
| "indexOf (y # ys) x =
     (if y = x then 0 else (let i = indexOf ys x in if i < 0 then - 1 else i + 1))"

text \<open>
  \<open>xs.splice(i, 1)\<close>: a negative start counts from the end (so \<open>-1\<close> removes the last
  element), a start beyond the end removes nothing.
\<close>

definition splice1 :: "int \<Rightarrow> 'a list \<Rightarrow> 'a list" where
  "splice1 i xs =
     (let n = int (length xs);
          start = (if i < 0 then max (n + i) 0 else min i n)
      in take (nat start) xs @ drop (nat start + 1) xs)"

subsection \<open>State\<close>

text \<open>
  Session objects live in a heap and are named by their address, the position in the
  heap; the pool's \<open>Set<Session>\<close> is the list of addresses in insertion order. Every
  call of \<open>acquire\<close> gets a number of its own, which names the promise it returns and, if
  it has to wait, its \<open>waiter\<close> closure.
\<close>

type_synonym addr = nat

datatype outcome = Resolved addr | Rejected string

datatype promise_state = Fulfilled | Pending

text \<open>
  The first seven fields are those of the class (\<open>sessionKeepAliveId\<close> is kept as
  whether the interval timer is armed). The others are what the runtime holds for the
  pool while its asynchronous operations are under way:
  \<^item> \<open>timers\<close>: the armed \<open>setTimeout\<close> timers of waiters, each with its timeout;
  \<^item> \<open>prepopulating\<close>: the \<open>createSession\<close> calls of the constructor still in flight;
  \<^item> \<open>creatingFor\<close>: the \<open>acquire\<close> calls whose \<open>createSession\<close> is in flight;
  \<^item> \<open>deleting\<close>: the sessions whose \<open>delete()\<close>, started by \<open>deleteSession\<close>, is in
    flight, with the \<open>then\<close> callback attached;
  \<^item> \<open>settled\<close>: the log of every \<open>resolve\<close> and \<open>reject\<close> of an \<open>acquire\<close> promise;
  \<^item> \<open>issued\<close>: the log of the session requests sent to the server;
  \<^item> \<open>destroyResolved\<close>: whether the promise of a \<open>destroy()\<close> call has resolved.
\<close>

record SessionPool =
  minLimit :: int
  maxLimit :: int
  sessions :: "addr list"
  newSessionsRequested :: int
  sessionsBeingDeleted :: int
  keepAliveArmed :: bool
  waiters :: "nat list"
  heap :: "Session list"
  timers :: "(nat \<times> int) list"
  prepopulating :: nat
  creatingFor :: "nat list"
  deleting :: "addr list"
  settled :: "(nat \<times> outcome) list"
  nextId :: nat
  issued :: "rpc list"
  destroyResolved :: bool

text \<open>
  The constructor. \<open>prepopulateSessions\<close> starts one \<open>createSession\<close> per element of
  \<open>_.range(minLimit)\<close>, which has \<open>|minLimit|\<close> elements, and does not count them in
  \<open>newSessionsRequested\<close>.
\<close>

definition new_SessionPool :: "int \<Rightarrow> int \<Rightarrow> SessionPool" where
  "new_SessionPool mn mx =
     \<lparr>minLimit = mn, maxLimit = mx, sessions = [], newSessionsRequested = 0,
      sessionsBeingDeleted = 0, keepAliveArmed = True, waiters = [], heap = [],
      timers = [], prepopulating = nat \<bar>mn\<bar>, creatingFor = [], deleting = [],
      settled = [], nextId = 0, issued = [], destroyResolved = False\<rparr>"

definition update_session :: "addr \<Rightarrow> (Session \<Rightarrow> Session) \<Rightarrow> SessionPool \<Rightarrow> SessionPool" where
  "update_session a f w = w\<lparr>heap := (heap w)[a := f (heap w ! a)]\<rparr>"

definition clearTimeout :: "nat \<Rightarrow> SessionPool \<Rightarrow> SessionPool" where
  "clearTimeout c w = w\<lparr>timers := filter (\<lambda>(c', t). c' \<noteq> c) (timers w)\<rparr>"

definition settle :: "nat \<Rightarrow> outcome \<Rightarrow> SessionPool \<Rightarrow> SessionPool" where
  "settle c out w = w\<lparr>settled := settled w @ [(c, out)]\<rparr>"

subsection \<open>\<open>createSession\<close>\<close>

text \<open>
  The part of \<open>createSession\<close> after its two \<open>await\<close>s, once the server has answered with
  a session id: a new object, the two listeners, \<open>sessions.add\<close>. The listeners are the
  functions \<open>on_SESSION_RELEASE\<close> and \<open>deleteSession\<close> below; every session of the heap
  has them, as every session is made here.
\<close>

definition createSession_resume :: "string \<Rightarrow> SessionPool \<Rightarrow> addr \<times> SessionPool" where
  "createSession_resume sid w =
     (let a = length (heap w)
      in (a, w\<lparr>heap := heap w @ [new_Session sid],
                sessions := (if a \<in> set (sessions w) then sessions w else sessions w @ [a])\<rparr>))"

subsection \<open>\<open>acquire\<close>\<close>

definition find_free :: "SessionPool \<Rightarrow> addr option" where
  "find_free w = List.find (\<lambda>a. isFree (heap w ! a)) (sessions w)"

definition has_capacity :: "SessionPool \<Rightarrow> bool" where
  "has_capacity w =
     (int (length (sessions w)) + newSessionsRequested w - sessionsBeingDeleted w \<le> maxLimit w)"

text \<open>
  The synchronous body of \<open>acquire(timeout)\<close>. The call takes the number \<open>nextId\<close>.
  A free session is acquired and the promise is resolved at once; else, with capacity,
  \<open>newSessionsRequested\<close> goes up and a \<open>createSession\<close> is started; else a waiter is
  pushed, after its timer has been armed when \<open>timeout\<close> is truthy.
\<close>

definition acquire :: "int \<Rightarrow> SessionPool \<Rightarrow> SessionPool" where
  "acquire timeout w =
     (let c = nextId w; w0 = w\<lparr>nextId := Suc c\<rparr>
      in case find_free w of
           Some a \<Rightarrow> settle c (Resolved a) (update_session a Session_acquire w0)
         | None \<Rightarrow>
             if has_capacity w
             then w0\<lparr>newSessionsRequested := newSessionsRequested w + 1,
                     creatingFor := creatingFor w @ [c]\<rparr>
             else w0\<lparr>timers := (if timeout \<noteq> 0 then timers w @ [(c, timeout)] else timers w),
                     waiters := waiters w @ [c]\<rparr>)"

text \<open>The \<open>then\<close> callback of \<open>acquire\<close> on the created session, for call \<open>c\<close>.\<close>

definition acquire_created :: "nat \<Rightarrow> string \<Rightarrow> SessionPool \<Rightarrow> SessionPool" where
  "acquire_created c sid w =
     (if c \<in> set (creatingFor w) then
        (case createSession_resume sid (w\<lparr>creatingFor := remove1 c (creatingFor w)\<rparr>) of
           (a, w1) \<Rightarrow>
             settle c (Resolved a)
               (update_session a Session_acquire
                  (w1\<lparr>newSessionsRequested := newSessionsRequested w1 - 1\<rparr>)))
      else w)"

text \<open>
  \<open>createSession\<close> fails for call \<open>c\<close>: the promise of \<open>acquire\<close> rejects with the same
  error; the \<open>then\<close> callback does not run, so the counter stays as it is.
\<close>

definition acquire_create_failed :: "nat \<Rightarrow> string \<Rightarrow> SessionPool \<Rightarrow> SessionPool" where
  "acquire_create_failed c err w =
     (if c \<in> set (creatingFor w)
      then settle c (Rejected err) (w\<lparr>creatingFor := remove1 c (creatingFor w)\<rparr>)
      else w)"

text \<open>The closure \<open>waiter\<close> of call \<open>c\<close>, applied to a session.\<close>

definition waiter :: "nat \<Rightarrow> addr \<Rightarrow> SessionPool \<Rightarrow> SessionPool" where
  "waiter c a w = settle c (Resolved a) (update_session a Session_acquire (clearTimeout c w))"

text \<open>
  The timer of call \<open>c\<close> fires (it can only while it is armed, and is spent afterwards):
  \<open>waiters.splice(waiters.indexOf(waiter), 1)\<close> and the rejection.
\<close>

definition timer_fires :: "nat \<Rightarrow> SessionPool \<Rightarrow> SessionPool" where
  "timer_fires c w =
     (case map_of (timers w) c of
        None \<Rightarrow> w
      | Some t \<Rightarrow>
          settle c (Rejected (timeout_message t))
            ((clearTimeout c w)\<lparr>waiters := splice1 (indexOf (waiters w) c) (waiters w)\<rparr>))"

subsection \<open>\<open>release\<close> and the pool's listener\<close>

definition on_SESSION_RELEASE :: "addr \<Rightarrow> SessionPool \<Rightarrow> SessionPool" where
  "on_SESSION_RELEASE a w =
     (case waiters w of [] \<Rightarrow> w | c # cs \<Rightarrow> waiter c a (w\<lparr>waiters := cs\<rparr>))"

definition release :: "addr \<Rightarrow> SessionPool \<Rightarrow> SessionPool" where
  "release a w = on_SESSION_RELEASE a (update_session a Session_release w)"

subsection \<open>\<open>deleteSession\<close>, \<open>destroy\<close> and the keepalive timer\<close>

text \<open>
  The part of \<open>session.delete()\<close> that runs before its \<open>await\<close>, on the heap: the flag
  and the request. Whether the request succeeds is known only later.
\<close>

definition Session_delete_begin :: "addr \<Rightarrow> SessionPool \<Rightarrow> SessionPool" where
  "Session_delete_begin a w =
     (case Session_delete RpcOk (heap w ! a) of
        (res, s', sent') \<Rightarrow> w\<lparr>heap := (heap w)[a := s'], issued := issued w @ sent'\<rparr>)"

text \<open>
  \<open>deleteSession\<close> is an \<open>async\<close> function with no \<open>await\<close> in it: it starts
  \<open>session.delete()\<close>, attaches the \<open>then\<close> callback and returns, so the promise it
  returns is fulfilled as soon as its body has run. Its value here is that promise's
  state and the pool afterwards.
\<close>

definition deleteSession :: "addr \<Rightarrow> SessionPool \<Rightarrow> promise_state \<times> SessionPool" where
  "deleteSession a w =
     (if \<not> isDeleted (heap w ! a)
      then (Fulfilled,
            (Session_delete_begin a (w\<lparr>sessionsBeingDeleted := sessionsBeingDeleted w + 1\<rparr>))
              \<lparr>deleting := deleting w @ [a]\<rparr>)
      else (Fulfilled, w))"

text \<open>The \<open>then\<close> callback, when the \<open>delete()\<close> of session \<open>a\<close> has resolved.\<close>

definition delete_resolved :: "addr \<Rightarrow> SessionPool \<Rightarrow> SessionPool" where
  "delete_resolved a w =
     (if a \<in> set (deleting w)
      then w\<lparr>deleting := remove1 a (deleting w),
              sessions := removeAll a (sessions w),
              sessionsBeingDeleted := sessionsBeingDeleted w - 1\<rparr>
      else w)"

text \<open>The \<open>delete()\<close> of session \<open>a\<close> has rejected: the callback is dropped.\<close>

definition delete_rejected :: "addr \<Rightarrow> SessionPool \<Rightarrow> SessionPool" where
  "delete_rejected a w = w\<lparr>deleting := remove1 a (deleting w)\<rparr>"

text \<open>\<open>_.map([...sessions], s => this.deleteSession(s))\<close>: the promises, and the pool.\<close>

fun deleteSessions :: "addr list \<Rightarrow> SessionPool \<Rightarrow> promise_state list \<times> SessionPool" where
  "deleteSessions [] w = ([], w)"
| "deleteSessions (a # as) w =
     (case deleteSession a w of
        (p, w1) \<Rightarrow> (case deleteSessions as w1 of (ps, w2) \<Rightarrow> (p # ps, w2)))"

text \<open>
  \<open>destroy()\<close>: the interval timer is cleared, \<open>deleteSession\<close> is called on a snapshot of
  the sessions, and \<open>Promise.all\<close> of the promises is awaited. \<open>Promise.all\<close> of fulfilled
  promises is fulfilled without any further event, and with it the promise of \<open>destroy\<close>.
\<close>

definition destroy :: "SessionPool \<Rightarrow> SessionPool" where
  "destroy w =
     (case deleteSessions (sessions w) (w\<lparr>keepAliveArmed := False\<rparr>) of
        (ps, w1) \<Rightarrow> w1\<lparr>destroyResolved := list_all (\<lambda>p. p = Fulfilled) ps\<rparr>)"

text \<open>The interval timer fires, if armed: \<open>keepAlive()\<close> on every session of the pool.\<close>

definition keepAlive_tick :: "SessionPool \<Rightarrow> SessionPool" where
  "keepAlive_tick w =
     (if keepAliveArmed w
      then w\<lparr>issued := issued w @ map (\<lambda>a. KeepAliveRpc (sessionId (heap w ! a))) (sessions w)\<rparr>
      else w)"

subsection \<open>\<open>withSession\<close>\<close>

text \<open>
  \<open>withSession(callback, timeout)\<close> first awaits \<open>acquire(timeout)\<close>; if that rejects, so
  does \<open>withSession\<close>, and the callback is not called. With a session \<open>a\<close> it awaits the
  callback. \<open>withSession_resume\<close> is what follows, in the state of the pool at that
  moment: \<open>Inr result\<close> when the callback returned, \<open>Inl error\<close> when it threw.
\<close>

definition withSession_resume ::
  "addr \<Rightarrow> string + 'r \<Rightarrow> SessionPool \<Rightarrow> (string + 'r) \<times> SessionPool" where
  "withSession_resume a cb w =
     (case cb of
        Inr result \<Rightarrow> (Inr result, release a w)
      | Inl error \<Rightarrow> (Inl error, snd (deleteSession a w)))"

definition withSession_acquired ::
  "outcome \<Rightarrow> string + 'r \<Rightarrow> SessionPool \<Rightarrow> (string + 'r) \<times> SessionPool" where
  "withSession_acquired acq cb w =
     (case acq of
        Rejected e \<Rightarrow> (Inl e, w)
      | Resolved a \<Rightarrow> withSession_resume a cb w)"

subsection \<open>Events\<close>

text \<open>
  Everything that can happen to a pool, one event at a time, as the single thread of the
  runtime takes them: calls from outside (\<open>acquire\<close>, \<open>deleteSession\<close> as called by
  \<open>withSession\<close> or the \<open>SESSION_BROKEN\<close> listener, \<open>destroy\<close>, and the public methods
  \<open>release\<close>, \<open>acquire\<close> and \<open>delete\<close> of a session object someone holds), and
  completions of what is in flight (session creation, deletion, timers). An event that
  names a session names one that exists.
\<close>

datatype pool_event =
    Acquire int
  | PrepopulateCreated string
  | PrepopulateFailed
  | SessionCreated nat string
  | CreateFailed nat string
  | Release addr
  | TimerFires nat
  | DeleteSession addr
  | DeleteResolved addr
  | DeleteRejected addr
  | CallSessionDelete addr
  | CallSessionAcquire addr
  | KeepAliveTick
  | Destroy

fun step :: "pool_event \<Rightarrow> SessionPool \<Rightarrow> SessionPool" where
  "step (Acquire t) w = acquire t w"
| "step (PrepopulateCreated sid) w =
     (if 0 < prepopulating w
      then snd (createSession_resume sid (w\<lparr>prepopulating := prepopulating w - 1\<rparr>))
      else w)"
| "step PrepopulateFailed w = w\<lparr>prepopulating := prepopulating w - 1\<rparr>"
| "step (SessionCreated c sid) w = acquire_created c sid w"
| "step (CreateFailed c err) w = acquire_create_failed c err w"
| "step (Release a) w = (if a < length (heap w) then release a w else w)"
| "step (TimerFires c) w = timer_fires c w"
| "step (DeleteSession a) w = (if a < length (heap w) then snd (deleteSession a w) else w)"
| "step (DeleteResolved a) w = delete_resolved a w"
| "step (DeleteRejected a) w = delete_rejected a w"
| "step (CallSessionDelete a) w = (if a < length (heap w) then Session_delete_begin a w else w)"
| "step (CallSessionAcquire a) w =
     (if a < length (heap w) then update_session a Session_acquire w else w)"
| "step KeepAliveTick w = keepAlive_tick w"
| "step Destroy w = destroy w"

definition run :: "pool_event list \<Rightarrow> SessionPool \<Rightarrow> SessionPool" where
  "run es w = fold step es w"

subsection \<open>Invariants\<close>

text \<open>
  The heap only grows, and a session that is deleted in the heap \<open>h\<close> is deleted in the
  later heap \<open>h'\<close>.
\<close>

definition deleted_kept :: "Session list \<Rightarrow> Session list \<Rightarrow> bool" where
  "deleted_kept h h' =
     (length h \<le> length h' \<and> (\<forall>a < length h. isDeleted (h ! a) \<longrightarrow> isDeleted (h' ! a)))"

text \<open>
  The numbers of \<open>acquire\<close> calls: a call is waiting in the queue, or waiting for its
  session to be created, or has had its promise settled, and never two of these nor one
  of them twice; every number in use is below \<open>nextId\<close>; and every armed timer is the
  timer of a waiter in the queue.
\<close>

definition pool_inv :: "SessionPool \<Rightarrow> bool" where
  "pool_inv w =
     (distinct (waiters w @ creatingFor w @ map fst (settled w))
      \<and> (\<forall>c \<in> set (waiters w @ creatingFor w @ map fst (settled w)). c < nextId w)
      \<and> set (map fst (timers w)) \<subseteq> set (waiters w))"

section \<open>Properties of sessions\<close>

lemma isDeleted_session_call:
  "isDeleted s \<Longrightarrow> isDeleted (apply_call s c)"
  by (cases c) (simp_all add: isDeleted_def Session_acquire_def Session_release_def Session_delete_def)

lemma isDeleted_session_calls:
  "isDeleted s \<Longrightarrow> isDeleted (foldl apply_call s cs)"
  by (induction cs arbitrary: s) (simp_all add: isDeleted_session_call)

lemma isDeleted_after_delete:
  "isDeleted (fst (snd (Session_delete r s)))"
  by (simp add: Session_delete_def isDeleted_def)

text \<open>
  C4. \<open>delete()\<close> on a deleted session resolves, leaves the object alone and sends nothing;
  on any other session it sets the deleted flag and sends exactly one \<open>DeleteSession\<close>
  request for the session's id; a second \<open>delete()\<close> after the first adds nothing: the
  outcome, the object and the requests sent are those of a single call.
\<close>

theorem Session_delete_idempotent:
  "(isDeleted s \<longrightarrow> Session_delete r s = (Inr (), s, []))
   \<and> (\<not> isDeleted s \<longrightarrow>
        isDeleted (fst (snd (Session_delete r s)))
        \<and> snd (snd (Session_delete r s)) = [DeleteSessionRpc (sessionId s)])
   \<and> Session_delete r2 (fst (snd (Session_delete r s))) = (Inr (), fst (snd (Session_delete r s)), [])
   \<and> Session_delete_twice r r2 s = Session_delete r s"
  by (cases r) (simp_all add: Session_delete_twice_def Session_delete_def isDeleted_def)

theorem Session_delete_idempotent_witness:
  "\<not> isDeleted (new_Session ''s1'')
   \<and> isDeleted (fst (snd (Session_delete RpcOk (new_Session ''s1''))))
   \<and> snd (snd (Session_delete RpcOk (new_Session ''s1''))) = [DeleteSessionRpc ''s1'']
   \<and> isDeleted (new_Session ''s1''\<lparr>beingDeleted := True\<rparr>)
   \<and> Session_delete RpcOk (new_Session ''s1''\<lparr>beingDeleted := True\<rparr>)
       = (Inr (), new_Session ''s1''\<lparr>beingDeleted := True\<rparr>, [])
   \<and> Session_delete_twice RpcOk (RpcThrows ''e'') (new_Session ''s1'')
       = Session_delete RpcOk (new_Session ''s1'')"
  using Session_delete_idempotent [of "new_Session ''s1''" RpcOk "RpcThrows ''e''"]
        Session_delete_idempotent [of "new_Session ''s1''\<lparr>beingDeleted := True\<rparr>" RpcOk RpcOk]
  by (simp add: new_Session_def isDeleted_def)

text \<open>
  C5. Without a \<open>txControl\<close> argument the request carries \<open>AUTO_TX\<close>, which begins a
  serializable read-write transaction and commits; an explicit control, existing or new,
  is carried as given.
\<close>

theorem executeQuery_txControl:
  "req_txControl (executeQuery_request s q p None) = AUTO_TX
   \<and> AUTO_TX = NewTransaction SerializableReadWrite True
   \<and> req_txControl (executeQuery_request s q p (Some (ExistingTransaction txId)))
       = ExistingTransaction txId
   \<and> req_txControl (executeQuery_request s q p (Some (NewTransaction settings commit)))
       = NewTransaction settings commit
   \<and> req_txControl (executeQuery_request s q p (Some tc)) = tc"
  by (simp add: executeQuery_request_def AUTO_TX_def)

section \<open>Properties of the IAM authentication\<close>

lemma auth_step_call_service:
  "service (auth_step (CallGetAuthMetadata t0 t1) w) = service w"
  by (simp add: getAuthMetadata_begin_def)

lemma auth_step_call_sent:
  "expired t0 (service w) \<Longrightarrow>
   sent (auth_step (CallGetAuthMetadata t0 t1) w) = sent w @ [sendTokenRequest t1 (service w)]"
  by (simp add: getAuthMetadata_begin_def)

lemma auth_run_calls_sent:
  "list_all (\<lambda>(t0, t1). expired t0 (service w)) ts \<Longrightarrow>
   sent (auth_run (map (\<lambda>(t0, t1). CallGetAuthMetadata t0 t1) ts) w)
     = sent w @ map (\<lambda>(t0, t1). sendTokenRequest t1 (service w)) ts
   \<and> service (auth_run (map (\<lambda>(t0, t1). CallGetAuthMetadata t0 t1) ts) w) = service w"
proof (induction ts arbitrary: w)
  case Nil
  then show ?case by (simp add: auth_run_def)
next
  case (Cons p ts)
  obtain t0 t1 where p: "p = (t0, t1)" by (cases p)
  let ?w1 = "auth_step (CallGetAuthMetadata t0 t1) w"
  from Cons.prems p have e: "expired t0 (service w)"
    and rest: "list_all (\<lambda>(t0, t1). expired t0 (service ?w1)) ts"
    by (simp_all add: auth_step_call_service del: auth_step.simps)
  from Cons.IH [OF rest] e show ?case
    by (simp add: p auth_run_def auth_step_call_service auth_step_call_sent del: auth_step.simps)
qed





text \<open>
  C7, as the code has it. The part of \<open>getAuthMetadata\<close> before its \<open>await\<close> changes
  nothing of the service, so every call that starts while the token is expired, and before
  any response has come back, sends a token request of its own: \<open>n\<close> overlapping calls
  send \<open>n\<close> requests, and the service is as it was.
\<close>

theorem getAuthMetadata_not_single_flight:
  "list_all (\<lambda>(t0, t1). expired t0 (service w)) ts \<Longrightarrow>
   sent (auth_run (map (\<lambda>(t0, t1). CallGetAuthMetadata t0 t1) ts) w)
     = sent w @ map (\<lambda>(t0, t1). sendTokenRequest t1 (service w)) ts
   \<and> length (sent (auth_run (map (\<lambda>(t0, t1). CallGetAuthMetadata t0 t1) ts) w))
     = length (sent w) + length ts
   \<and> service (auth_run (map (\<lambda>(t0, t1). CallGetAuthMetadata t0 t1) ts) w) = service w"
  using auth_run_calls_sent [of w ts] by simp

theorem getAuthMetadata_not_single_flight_witness:
  "list_all (\<lambda>(t0, t1). expired t0 (service (new_AuthWorld
       \<lparr>serviceAccountId = ''sa'', accessKeyId = ''key'', privateKey = ''pk'',
        iamEndpoint = ''iam.example:443''\<rparr> ''/db''))) [(0, 0), (1, 1), (2, 3)]
   \<and> length (sent (auth_run [CallGetAuthMetadata 0 0, CallGetAuthMetadata 1 1, CallGetAuthMetadata 2 3]
        (new_AuthWorld
       \<lparr>serviceAccountId = ''sa'', accessKeyId = ''key'', privateKey = ''pk'',
        iamEndpoint = ''iam.example:443''\<rparr> ''/db''))) = 3"
  using getAuthMetadata_not_single_flight [of "new_AuthWorld
       \<lparr>serviceAccountId = ''sa'', accessKeyId = ''key'', privateKey = ''pk'',
        iamEndpoint = ''iam.example:443''\<rparr> ''/db''" "[(0, 0), (1, 1), (2, 3)]"]
  by (simp add: new_AuthWorld_def new_IamAuthService_def expired_def)

text \<open>
  Two calls on a fresh service, the second before the first response: two token requests.
\<close>

theorem getAuthMetadata_single_flight_counterexample:
  "\<not> length (sent (auth_run [CallGetAuthMetadata 0 0, CallGetAuthMetadata 0 0]
        (new_AuthWorld
       \<lparr>serviceAccountId = ''sa'', accessKeyId = ''key'', privateKey = ''pk'',
        iamEndpoint = ''iam.example:443''\<rparr> ''/db''))) \<le> 1"
  by (simp add: auth_run_def new_AuthWorld_def new_IamAuthService_def expired_def
        getAuthMetadata_begin_def)

text \<open>
  C8, as the code has it. The JWT of a token request is signed with the private key of
  the credentials, algorithm \<open>PS256\<close> and key id \<open>accessKeyId\<close>; its claims are
  \<open>iss = serviceAccountId\<close>, \<open>aud\<close> the fixed URL
  \<open>https://iam.api.cloud.yandex.net/iam/v1/tokens\<close>, \<open>iat\<close> the current time in whole
  seconds and \<open>exp = iat + 3600\<close>; the request is given 10000 ms; and this is the request
  a call sends when the token is expired.
\<close>

theorem getJwtRequest_claims:
  "getJwtRequest now s =
     Jwt_sign
       \<lparr>jwt_iss = serviceAccountId (iamCredentials s),
        jwt_aud = ''https://iam.api.cloud.yandex.net/iam/v1/tokens'',
        jwt_iat = round_toSeconds now,
        jwt_exp = round_toSeconds now + 3600\<rparr>
       (privateKey (iamCredentials s))
       \<lparr>algorithm = ''PS256'', keyid = accessKeyId (iamCredentials s)\<rparr>
   \<and> round_toSeconds (now + jwtExpirationTimeout) = round_toSeconds now + 3600
   \<and> sendTokenRequest now s = \<lparr>request_jwt = getJwtRequest now s, request_timeout = 10000\<rparr>
   \<and> (expired t0 s \<longrightarrow> getAuthMetadata_begin t0 now s = Some (sendTokenRequest now s))"
  by (simp add: getJwtRequest_def sendTokenRequest_def round_toSeconds_def
        jwtExpirationTimeout_def tokenRequestTimeout_def getAuthMetadata_begin_def)

theorem getJwtRequest_claims_witness:
  "expired 1500 (new_IamAuthService
       \<lparr>serviceAccountId = ''sa'', accessKeyId = ''key'', privateKey = ''pk'',
        iamEndpoint = ''iam.example:443''\<rparr> ''/db'')
   \<and> getAuthMetadata_begin 1500 1500 (new_IamAuthService
       \<lparr>serviceAccountId = ''sa'', accessKeyId = ''key'', privateKey = ''pk'',
        iamEndpoint = ''iam.example:443''\<rparr> ''/db'')
     = Some \<lparr>request_jwt = Jwt_sign
                \<lparr>jwt_iss = ''sa'', jwt_aud = ''https://iam.api.cloud.yandex.net/iam/v1/tokens'',
                 jwt_iat = 2, jwt_exp = 3602\<rparr> ''pk'' \<lparr>algorithm = ''PS256'', keyid = ''key''\<rparr>,
             request_timeout = 10000\<rparr>"
  using getJwtRequest_claims [of 1500 "new_IamAuthService
       \<lparr>serviceAccountId = ''sa'', accessKeyId = ''key'', privateKey = ''pk'',
        iamEndpoint = ''iam.example:443''\<rparr> ''/db''" 1500]
  by (simp add: new_IamAuthService_def expired_def round_toSeconds_def)

text \<open>
  The \<open>aud\<close> claim is not the \<open>iamEndpoint\<close> the service was configured with.
\<close>

theorem jwt_aud_configured_endpoint_counterexample:
  "\<not> jwt_aud (jwt_payload (getJwtRequest 0 (new_IamAuthService
       \<lparr>serviceAccountId = ''sa'', accessKeyId = ''key'', privateKey = ''pk'',
        iamEndpoint = ''iam.example:443''\<rparr> ''/db'')))
     = iamEndpoint (iamCredentials (new_IamAuthService
       \<lparr>serviceAccountId = ''sa'', accessKeyId = ''key'', privateKey = ''pk'',
        iamEndpoint = ''iam.example:443''\<rparr> ''/db''))"
  by (simp add: getJwtRequest_def new_IamAuthService_def)

section \<open>Properties of the session pool\<close>

subsection \<open>Deletion is never undone\<close>

lemma deleted_kept_refl: "deleted_kept h h"
  by (simp add: deleted_kept_def)

lemma deleted_kept_trans: "deleted_kept h1 h2 \<Longrightarrow> deleted_kept h2 h3 \<Longrightarrow> deleted_kept h1 h3"
  by (auto simp add: deleted_kept_def)

lemma deleted_kept_update:
  "isDeleted (h ! a) \<longrightarrow> isDeleted s' \<Longrightarrow> deleted_kept h (h[a := s'])"
proof (cases "a < length h")
  case True
  assume "isDeleted (h ! a) \<longrightarrow> isDeleted s'"
  with True show ?thesis by (auto simp add: deleted_kept_def nth_list_update)
next
  case False
  then show ?thesis by (simp add: deleted_kept_def)
qed

lemma deleted_kept_append: "deleted_kept h (h @ xs)"
  by (simp add: deleted_kept_def nth_append)

lemma heap_update_session:
  "(\<And>s. isDeleted s \<Longrightarrow> isDeleted (f s)) \<Longrightarrow> deleted_kept (heap w) (heap (update_session a f w))"
  by (simp add: update_session_def deleted_kept_update)

lemma isDeleted_Session_acquire: "isDeleted s \<Longrightarrow> isDeleted (Session_acquire s)"
  by (simp add: isDeleted_def Session_acquire_def)

lemma isDeleted_Session_release: "isDeleted s \<Longrightarrow> isDeleted (Session_release s)"
  by (simp add: isDeleted_def Session_release_def)

lemma heap_settle [simp]: "heap (settle c out w) = heap w"
  by (simp add: settle_def)

lemma heap_clearTimeout [simp]: "heap (clearTimeout c w) = heap w"
  by (simp add: clearTimeout_def)

lemma heap_acquire: "deleted_kept (heap w) (heap (acquire t w))"
proof (cases "find_free w")
  case None
  then show ?thesis by (simp add: acquire_def Let_def deleted_kept_refl)
next
  case (Some a)
  have "deleted_kept (heap (w\<lparr>nextId := Suc (nextId w)\<rparr>))
          (heap (update_session a Session_acquire (w\<lparr>nextId := Suc (nextId w)\<rparr>)))"
    by (rule heap_update_session) (rule isDeleted_Session_acquire)
  with Some show ?thesis by (simp add: acquire_def Let_def)
qed

lemma heap_createSession_resume:
  "deleted_kept (heap w) (heap (snd (createSession_resume sid w)))"
  by (simp add: createSession_resume_def Let_def deleted_kept_append)

lemma heap_acquire_created: "deleted_kept (heap w) (heap (acquire_created c sid w))"
proof (cases "c \<in> set (creatingFor w)")
  case False
  then show ?thesis by (simp add: acquire_created_def deleted_kept_refl)
next
  case True
  let ?w0 = "w\<lparr>creatingFor := remove1 c (creatingFor w)\<rparr>"
  obtain a w1 where cr: "createSession_resume sid ?w0 = (a, w1)" by (cases "createSession_resume sid ?w0")
  have 1: "deleted_kept (heap w) (heap w1)"
    using heap_createSession_resume [of ?w0 sid] cr by simp
  have 2: "deleted_kept (heap (w1\<lparr>newSessionsRequested := newSessionsRequested w1 - 1\<rparr>))
             (heap (update_session a Session_acquire (w1\<lparr>newSessionsRequested := newSessionsRequested w1 - 1\<rparr>)))"
    by (rule heap_update_session) (rule isDeleted_Session_acquire)
  from True cr deleted_kept_trans [OF 1] 2 show ?thesis
    by (simp add: acquire_created_def)
qed

lemma heap_waiter: "deleted_kept (heap w) (heap (waiter c a w))"
  using heap_update_session [of Session_acquire "clearTimeout c w" a]
  by (simp add: waiter_def isDeleted_Session_acquire)

lemma heap_release: "deleted_kept (heap w) (heap (release a w))"
proof -
  let ?w1 = "update_session a Session_release w"
  have 1: "deleted_kept (heap w) (heap ?w1)"
    by (rule heap_update_session) (rule isDeleted_Session_release)
  have 2: "deleted_kept (heap ?w1) (heap (on_SESSION_RELEASE a ?w1))"
  proof (cases "waiters ?w1")
    case Nil
    then show ?thesis by (simp add: on_SESSION_RELEASE_def deleted_kept_refl)
  next
    case (Cons c cs)
    with heap_waiter [of "?w1\<lparr>waiters := cs\<rparr>" c a] show ?thesis
      by (simp add: on_SESSION_RELEASE_def)
  qed
  from deleted_kept_trans [OF 1 2] show ?thesis by (simp add: release_def)
qed

lemma heap_timer_fires [simp]: "heap (timer_fires c w) = heap w"
  by (simp add: timer_fires_def split: option.splits)

lemma heap_Session_delete_begin: "deleted_kept (heap w) (heap (Session_delete_begin a w))"
  by (simp add: Session_delete_begin_def Session_delete_def deleted_kept_refl deleted_kept_update
      isDeleted_def)

lemma heap_deleteSession: "deleted_kept (heap w) (heap (snd (deleteSession a w)))"
  using heap_Session_delete_begin [of "w\<lparr>sessionsBeingDeleted := sessionsBeingDeleted w + 1\<rparr>" a]
  by (simp add: deleteSession_def deleted_kept_refl)

lemma heap_deleteSessions: "deleted_kept (heap w) (heap (snd (deleteSessions as w)))"
proof (induction as arbitrary: w)
  case Nil
  then show ?case by (simp add: deleted_kept_refl)
next
  case (Cons a as)
  obtain p w1 where d: "deleteSession a w = (p, w1)" by (cases "deleteSession a w")
  obtain ps w2 where ds: "deleteSessions as w1 = (ps, w2)" by (cases "deleteSessions as w1")
  from heap_deleteSession [of w a] d have 1: "deleted_kept (heap w) (heap w1)" by simp
  from Cons.IH [of w1] ds have 2: "deleted_kept (heap w1) (heap w2)" by simp
  from deleted_kept_trans [OF 1 2] d ds show ?case by simp
qed

lemma heap_destroy: "deleted_kept (heap w) (heap (destroy w))"
proof -
  let ?w0 = "w\<lparr>keepAliveArmed := False\<rparr>"
  obtain ps w1 where ds: "deleteSessions (sessions w) ?w0 = (ps, w1)"
    by (cases "deleteSessions (sessions w) ?w0")
  from heap_deleteSessions [of ?w0 "sessions w"] ds show ?thesis
    by (simp add: destroy_def)
qed

lemma heap_step: "deleted_kept (heap w) (heap (step e w))"
proof (cases e)
  case (Acquire t) then show ?thesis by (simp add: heap_acquire)
next
  case (PrepopulateCreated sid)
  with heap_createSession_resume [of "w\<lparr>prepopulating := prepopulating w - 1\<rparr>" sid]
  show ?thesis by (simp add: deleted_kept_refl)
next
  case PrepopulateFailed then show ?thesis by (simp add: deleted_kept_refl)
next
  case (SessionCreated c sid) then show ?thesis by (simp add: heap_acquire_created)
next
  case (CreateFailed c err) then show ?thesis
    by (simp add: acquire_create_failed_def deleted_kept_refl)
next
  case (Release a) then show ?thesis by (simp add: heap_release deleted_kept_refl)
next
  case (TimerFires c) then show ?thesis by (simp add: deleted_kept_refl)
next
  case (DeleteSession a) then show ?thesis by (simp add: heap_deleteSession deleted_kept_refl)
next
  case (DeleteResolved a) then show ?thesis by (simp add: delete_resolved_def deleted_kept_refl)
next
  case (DeleteRejected a) then show ?thesis by (simp add: delete_rejected_def deleted_kept_refl)
next
  case (CallSessionDelete a) then show ?thesis
    by (simp add: heap_Session_delete_begin deleted_kept_refl)
next
  case (CallSessionAcquire a) then show ?thesis
    by (simp add: heap_update_session isDeleted_Session_acquire deleted_kept_refl)
next
  case KeepAliveTick then show ?thesis by (simp add: keepAlive_tick_def deleted_kept_refl)
next
  case Destroy then show ?thesis by (simp add: heap_destroy)
qed

lemma heap_run: "deleted_kept (heap w) (heap (run es w))"
proof (induction es arbitrary: w)
  case Nil
  then show ?case by (simp add: run_def deleted_kept_refl)
next
  case (Cons e es)
  from deleted_kept_trans [OF heap_step [of w e] Cons.IH [of "step e w"]]
  show ?case by (simp add: run_def)
qed

lemma find_free_isFree: "find_free w = Some a \<Longrightarrow> isFree (heap w ! a) \<and> a \<in> set (sessions w)"
  by (auto simp add: find_free_def find_Some_iff)

text \<open>
  C10. After \<open>delete()\<close> on a session, \<open>isFree()\<close> is false whatever calls of \<open>acquire\<close>,
  \<open>release\<close> and \<open>delete\<close> follow. In the pool: the scan of \<open>acquire\<close> finds only
  sessions of the pool that are not deleted; a session that is deleted stays deleted
  through every run of events, is never free and is never what the scan finds; and both
  \<open>session.delete()\<close> and the pool's \<open>deleteSession\<close> leave the session deleted.
\<close>

theorem deleted_session_never_free:
  "\<not> isFree (foldl apply_call (fst (snd (Session_delete r s))) cs)
   \<and> (find_free w = Some a \<longrightarrow> a \<in> set (sessions w) \<and> \<not> isDeleted (heap w ! a))
   \<and> (a < length (heap w) \<and> isDeleted (heap w ! a) \<longrightarrow>
        isDeleted (heap (run es w) ! a)
        \<and> \<not> isFree (heap (run es w) ! a)
        \<and> find_free (run es w) \<noteq> Some a)
   \<and> (a < length (heap w) \<longrightarrow> isDeleted (heap (step (CallSessionDelete a) w) ! a))
   \<and> (a < length (heap w) \<longrightarrow> isDeleted (heap (step (DeleteSession a) w) ! a))"
proof -
  have 1: "\<not> isFree (foldl apply_call (fst (snd (Session_delete r s))) cs)"
    using isDeleted_session_calls [of "fst (snd (Session_delete r s))" cs] isDeleted_after_delete [of r s]
    by (simp add: isFree_def)
  have 2: "find_free w = Some a \<longrightarrow> a \<in> set (sessions w) \<and> \<not> isDeleted (heap w ! a)"
    using find_free_isFree [of w a] by (simp add: isFree_def)
  have 3: "isDeleted (heap (run es w) ! a) \<and> \<not> isFree (heap (run es w) ! a)
           \<and> find_free (run es w) \<noteq> Some a"
    if "a < length (heap w)" "isDeleted (heap w ! a)"
  proof -
    from heap_run [of w es] that have d: "isDeleted (heap (run es w) ! a)"
      by (simp add: deleted_kept_def)
    moreover from d have "\<not> isFree (heap (run es w) ! a)" by (simp add: isFree_def)
    moreover from this find_free_isFree [of "run es w" a] have "find_free (run es w) \<noteq> Some a"
      by blast
    ultimately show ?thesis by simp
  qed
  have 4: "a < length (heap w) \<longrightarrow> isDeleted (heap (step (CallSessionDelete a) w) ! a)"
    by (simp add: Session_delete_begin_def Session_delete_def isDeleted_def)
  have 5: "a < length (heap w) \<longrightarrow> isDeleted (heap (step (DeleteSession a) w) ! a)"
    by (simp add: deleteSession_def Session_delete_begin_def Session_delete_def isDeleted_def)
  from 1 2 3 4 5 show ?thesis by blast
qed


text \<open>The equations by which a run of events on a given pool is computed.\<close>

lemmas pool_defs =
  run_def new_SessionPool_def acquire_def find_free_def has_capacity_def acquire_created_def
  acquire_create_failed_def createSession_resume_def settle_def update_session_def
  clearTimeout_def waiter_def timer_fires_def on_SESSION_RELEASE_def release_def
  deleteSession_def Session_delete_begin_def Session_delete_def delete_resolved_def
  delete_rejected_def destroy_def keepAlive_tick_def isDeleted_def isFree_def new_Session_def
  Session_acquire_def Session_release_def splice1_def timeout_message_def Number_toString_def

theorem deleted_session_never_free_witness:
  "find_free (run [PrepopulateCreated ''s1''] (new_SessionPool 1 1)) = Some 0
   \<and> \<not> isDeleted (heap (run [PrepopulateCreated ''s1''] (new_SessionPool 1 1)) ! 0)
   \<and> 0 < length (heap (run [PrepopulateCreated ''s1'', DeleteSession 0] (new_SessionPool 1 1)))
   \<and> isDeleted (heap (run [PrepopulateCreated ''s1'', DeleteSession 0] (new_SessionPool 1 1)) ! 0)
   \<and> isDeleted (heap (run [Release 0, Acquire 0]
        (run [PrepopulateCreated ''s1'', DeleteSession 0] (new_SessionPool 1 1))) ! 0)
   \<and> find_free (run [Release 0, Acquire 0]
        (run [PrepopulateCreated ''s1'', DeleteSession 0] (new_SessionPool 1 1))) \<noteq> Some 0
   \<and> isDeleted (heap (step (CallSessionDelete 0)
        (run [PrepopulateCreated ''s1''] (new_SessionPool 1 1))) ! 0)"
  using deleted_session_never_free [of RpcOk "new_Session ''s1''" "[CallRelease]"
          "run [PrepopulateCreated ''s1''] (new_SessionPool 1 1)" 0 "[]"]
        deleted_session_never_free [of RpcOk "new_Session ''s1''" "[CallRelease]"
          "run [PrepopulateCreated ''s1'', DeleteSession 0] (new_SessionPool 1 1)" 0
          "[Release 0, Acquire 0]"]
  by (simp add: pool_defs)

subsection \<open>\<open>destroy\<close>\<close>

lemma deleteSession_frame:
  "fst (deleteSession a w) = Fulfilled
   \<and> sessions (snd (deleteSession a w)) = sessions w
   \<and> keepAliveArmed (snd (deleteSession a w)) = keepAliveArmed w
   \<and> creatingFor (snd (deleteSession a w)) = creatingFor w
   \<and> waiters (snd (deleteSession a w)) = waiters w
   \<and> timers (snd (deleteSession a w)) = timers w
   \<and> settled (snd (deleteSession a w)) = settled w
   \<and> nextId (snd (deleteSession a w)) = nextId w
   \<and> destroyResolved (snd (deleteSession a w)) = destroyResolved w"
  by (simp add: deleteSession_def Session_delete_begin_def Session_delete_def)

lemma deleteSessions_frame:
  "list_all (\<lambda>p. p = Fulfilled) (fst (deleteSessions as w))
   \<and> sessions (snd (deleteSessions as w)) = sessions w
   \<and> keepAliveArmed (snd (deleteSessions as w)) = keepAliveArmed w
   \<and> creatingFor (snd (deleteSessions as w)) = creatingFor w
   \<and> waiters (snd (deleteSessions as w)) = waiters w
   \<and> timers (snd (deleteSessions as w)) = timers w
   \<and> settled (snd (deleteSessions as w)) = settled w
   \<and> nextId (snd (deleteSessions as w)) = nextId w"
proof (induction as arbitrary: w)
  case Nil
  then show ?case by simp
next
  case (Cons a as)
  obtain p w1 where d: "deleteSession a w = (p, w1)" by (cases "deleteSession a w")
  obtain ps w2 where ds: "deleteSessions as w1 = (ps, w2)" by (cases "deleteSessions as w1")
  from deleteSession_frame [of a w] d Cons.IH [of w1] ds show ?case by simp
qed

lemma destroy_frame:
  "destroyResolved (destroy w) \<and> \<not> keepAliveArmed (destroy w)
   \<and> sessions (destroy w) = sessions w
   \<and> creatingFor (destroy w) = creatingFor w
   \<and> waiters (destroy w) = waiters w
   \<and> timers (destroy w) = timers w
   \<and> settled (destroy w) = settled w
   \<and> nextId (destroy w) = nextId w"
proof -
  let ?w0 = "w\<lparr>keepAliveArmed := False\<rparr>"
  obtain ps w1 where ds: "deleteSessions (sessions w) ?w0 = (ps, w1)"
    by (cases "deleteSessions (sessions w) ?w0")
  from deleteSessions_frame [of "sessions w" ?w0] ds show ?thesis
    by (simp add: destroy_def)
qed

text \<open>
  C9. \<open>destroy()\<close> clears the keepalive timer (a later tick does nothing), but its promise
  is resolved by the call itself, with every session still in the set: for a pool holding
  one session, the promise is resolved while the session is in \<open>sessions\<close>, its
  \<open>DeleteSession\<close> request is in flight and \<open>sessionsBeingDeleted\<close> is 1.
\<close>

theorem destroy_resolves_before_deletions:
  "destroyResolved (destroy w)
   \<and> \<not> keepAliveArmed (destroy w)
   \<and> keepAlive_tick (destroy w) = destroy w
   \<and> sessions (destroy w) = sessions w
   \<and> destroyResolved (run [PrepopulateCreated ''s1'', Destroy] (new_SessionPool 1 1))
   \<and> sessions (run [PrepopulateCreated ''s1'', Destroy] (new_SessionPool 1 1)) = [0]
   \<and> deleting (run [PrepopulateCreated ''s1'', Destroy] (new_SessionPool 1 1)) = [0]
   \<and> issued (run [PrepopulateCreated ''s1'', Destroy] (new_SessionPool 1 1))
       = [DeleteSessionRpc ''s1'']
   \<and> sessionsBeingDeleted (run [PrepopulateCreated ''s1'', Destroy] (new_SessionPool 1 1)) = 1"
proof -
  have "keepAlive_tick (destroy w) = destroy w"
    using destroy_frame [of w] by (simp add: keepAlive_tick_def)
  moreover have "destroyResolved (run [PrepopulateCreated ''s1'', Destroy] (new_SessionPool 1 1))
   \<and> sessions (run [PrepopulateCreated ''s1'', Destroy] (new_SessionPool 1 1)) = [0]
   \<and> deleting (run [PrepopulateCreated ''s1'', Destroy] (new_SessionPool 1 1)) = [0]
   \<and> issued (run [PrepopulateCreated ''s1'', Destroy] (new_SessionPool 1 1))
       = [DeleteSessionRpc ''s1'']
   \<and> sessionsBeingDeleted (run [PrepopulateCreated ''s1'', Destroy] (new_SessionPool 1 1)) = 1"
    by (simp add: pool_defs)
  ultimately show ?thesis using destroy_frame [of w] by simp
qed

subsection \<open>The acquire decision\<close>

lemma acquire_branches:
  "(find_free w = None \<and> has_capacity w \<longrightarrow>
      acquire t w = w\<lparr>nextId := Suc (nextId w),
                       newSessionsRequested := newSessionsRequested w + 1,
                       creatingFor := creatingFor w @ [nextId w]\<rparr>)
   \<and> (find_free w = None \<and> \<not> has_capacity w \<longrightarrow>
      acquire t w = w\<lparr>nextId := Suc (nextId w),
                       timers := (if t \<noteq> 0 then timers w @ [(nextId w, t)] else timers w),
                       waiters := waiters w @ [nextId w]\<rparr>)
   \<and> (find_free w = Some a \<longrightarrow>
      acquire t w = settle (nextId w) (Resolved a)
                      (update_session a Session_acquire (w\<lparr>nextId := Suc (nextId w)\<rparr>)))"
  by (simp add: acquire_def Let_def)

lemma release_frame:
  "sessions (release a w) = sessions w \<and> creatingFor (release a w) = creatingFor w
   \<and> issued (release a w) = issued w \<and> deleting (release a w) = deleting w
   \<and> sessionsBeingDeleted (release a w) = sessionsBeingDeleted w
   \<and> newSessionsRequested (release a w) = newSessionsRequested w
   \<and> nextId (release a w) = nextId w"
  by (cases "waiters w")
     (simp_all add: release_def on_SESSION_RELEASE_def update_session_def waiter_def settle_def
        clearTimeout_def)

lemma timer_fires_frame:
  "sessions (timer_fires c w) = sessions w \<and> creatingFor (timer_fires c w) = creatingFor w
   \<and> nextId (timer_fires c w) = nextId w"
  by (simp add: timer_fires_def settle_def clearTimeout_def split: option.splits)

lemma creatingFor_step:
  "c \<in> set (creatingFor (step e w)) \<Longrightarrow> c \<notin> set (creatingFor w) \<Longrightarrow>
   (\<exists>t. e = Acquire t) \<and> c = nextId w \<and> find_free w = None \<and> has_capacity w"
proof (cases e)
  case (Acquire t)
  assume "c \<in> set (creatingFor (step e w))" "c \<notin> set (creatingFor w)"
  with Acquire acquire_branches [of w t] show ?thesis
    by (cases "find_free w"; cases "has_capacity w")
       (auto simp add: settle_def update_session_def)
next
  case (PrepopulateCreated sid)
  assume "c \<in> set (creatingFor (step e w))" "c \<notin> set (creatingFor w)"
  with PrepopulateCreated show ?thesis
    by (simp add: createSession_resume_def Let_def split: if_splits)
next
  case PrepopulateFailed
  assume "c \<in> set (creatingFor (step e w))" "c \<notin> set (creatingFor w)"
  with PrepopulateFailed show ?thesis by simp
next
  case (SessionCreated c' sid)
  assume "c \<in> set (creatingFor (step e w))" "c \<notin> set (creatingFor w)"
  with SessionCreated notin_set_remove1 [of c "creatingFor w" c'] show ?thesis
    by (simp add: acquire_created_def createSession_resume_def Let_def settle_def
          update_session_def split: if_splits)
next
  case (CreateFailed c' err)
  assume "c \<in> set (creatingFor (step e w))" "c \<notin> set (creatingFor w)"
  with CreateFailed notin_set_remove1 [of c "creatingFor w" c'] show ?thesis
    by (simp add: acquire_create_failed_def settle_def split: if_splits)
next
  case (Release a)
  assume "c \<in> set (creatingFor (step e w))" "c \<notin> set (creatingFor w)"
  with Release release_frame [of a w] show ?thesis by (simp split: if_splits)
next
  case (TimerFires c')
  assume "c \<in> set (creatingFor (step e w))" "c \<notin> set (creatingFor w)"
  with TimerFires timer_fires_frame [of c' w] show ?thesis by simp
next
  case (DeleteSession a)
  assume "c \<in> set (creatingFor (step e w))" "c \<notin> set (creatingFor w)"
  with DeleteSession deleteSession_frame [of a w] show ?thesis by (simp split: if_splits)
next
  case (DeleteResolved a)
  assume "c \<in> set (creatingFor (step e w))" "c \<notin> set (creatingFor w)"
  with DeleteResolved show ?thesis by (simp add: delete_resolved_def split: if_splits)
next
  case (DeleteRejected a)
  assume "c \<in> set (creatingFor (step e w))" "c \<notin> set (creatingFor w)"
  with DeleteRejected show ?thesis by (simp add: delete_rejected_def)
next
  case (CallSessionDelete a)
  assume "c \<in> set (creatingFor (step e w))" "c \<notin> set (creatingFor w)"
  with CallSessionDelete show ?thesis
    by (simp add: Session_delete_begin_def Session_delete_def split: if_splits)
next
  case (CallSessionAcquire a)
  assume "c \<in> set (creatingFor (step e w))" "c \<notin> set (creatingFor w)"
  with CallSessionAcquire show ?thesis by (simp add: update_session_def split: if_splits)
next
  case KeepAliveTick
  assume "c \<in> set (creatingFor (step e w))" "c \<notin> set (creatingFor w)"
  with KeepAliveTick show ?thesis by (simp add: keepAlive_tick_def split: if_splits)
next
  case Destroy
  assume "c \<in> set (creatingFor (step e w))" "c \<notin> set (creatingFor w)"
  with Destroy destroy_frame [of w] show ?thesis by simp
qed

lemma sessions_step:
  "\<not> set (sessions (step e w)) \<subseteq> set (sessions w) \<Longrightarrow>
   (\<exists>sid. e = PrepopulateCreated sid \<and> 0 < prepopulating w)
   \<or> (\<exists>c sid. e = SessionCreated c sid \<and> c \<in> set (creatingFor w))"
proof (cases e)
  case (Acquire t)
  assume "\<not> set (sessions (step e w)) \<subseteq> set (sessions w)"
  with Acquire acquire_branches [of w t] show ?thesis
    by (cases "find_free w"; cases "has_capacity w")
       (auto simp add: settle_def update_session_def)
next
  case (PrepopulateCreated sid)
  assume "\<not> set (sessions (step e w)) \<subseteq> set (sessions w)"
  with PrepopulateCreated show ?thesis by (simp split: if_splits)
next
  case PrepopulateFailed
  assume "\<not> set (sessions (step e w)) \<subseteq> set (sessions w)"
  with PrepopulateFailed show ?thesis by simp
next
  case (SessionCreated c' sid)
  assume "\<not> set (sessions (step e w)) \<subseteq> set (sessions w)"
  with SessionCreated show ?thesis
    by (simp add: acquire_created_def split: if_splits)
next
  case (CreateFailed c' err)
  assume "\<not> set (sessions (step e w)) \<subseteq> set (sessions w)"
  with CreateFailed show ?thesis
    by (simp add: acquire_create_failed_def settle_def split: if_splits)
next
  case (Release a)
  assume "\<not> set (sessions (step e w)) \<subseteq> set (sessions w)"
  with Release release_frame [of a w] show ?thesis by (simp split: if_splits)
next
  case (TimerFires c')
  assume "\<not> set (sessions (step e w)) \<subseteq> set (sessions w)"
  with TimerFires timer_fires_frame [of c' w] show ?thesis by simp
next
  case (DeleteSession a)
  assume "\<not> set (sessions (step e w)) \<subseteq> set (sessions w)"
  with DeleteSession deleteSession_frame [of a w] show ?thesis by (simp split: if_splits)
next
  case (DeleteResolved a)
  assume "\<not> set (sessions (step e w)) \<subseteq> set (sessions w)"
  with DeleteResolved show ?thesis by (auto simp add: delete_resolved_def split: if_splits)
next
  case (DeleteRejected a)
  assume "\<not> set (sessions (step e w)) \<subseteq> set (sessions w)"
  with DeleteRejected show ?thesis by (simp add: delete_rejected_def)
next
  case (CallSessionDelete a)
  assume "\<not> set (sessions (step e w)) \<subseteq> set (sessions w)"
  with CallSessionDelete show ?thesis
    by (simp add: Session_delete_begin_def Session_delete_def split: if_splits)
next
  case (CallSessionAcquire a)
  assume "\<not> set (sessions (step e w)) \<subseteq> set (sessions w)"
  with CallSessionAcquire show ?thesis by (simp add: update_session_def split: if_splits)
next
  case KeepAliveTick
  assume "\<not> set (sessions (step e w)) \<subseteq> set (sessions w)"
  with KeepAliveTick show ?thesis by (simp add: keepAlive_tick_def split: if_splits)
next
  case Destroy
  assume "\<not> set (sessions (step e w)) \<subseteq> set (sessions w)"
  with Destroy destroy_frame [of w] show ?thesis by simp
qed


text \<open>
  C1, as the code has it. The capacity test of \<open>acquire\<close> is
  \<open>|sessions| + newSessionsRequested - sessionsBeingDeleted \<le> maxLimit\<close>. When no session
  of the pool is free, \<open>acquire\<close> starts a creation (and counts it) if the test holds, and
  otherwise queues the caller as the last waiter and creates nothing; when a session is
  free it is handed out and nothing is created or queued. \<open>acquire\<close> itself never changes
  the set of sessions. Over all events: a creation for an acquirer is only ever started by
  an \<open>acquire\<close> that found no free session and passed the test, and a session only enters
  the set when such a creation, or one of the constructor's, completes.
\<close>

theorem acquire_creates_only_with_capacity:
  "(has_capacity w \<longleftrightarrow>
      int (length (sessions w)) + newSessionsRequested w - sessionsBeingDeleted w \<le> maxLimit w)
   \<and> (find_free w = None \<and> has_capacity w \<longrightarrow>
        creatingFor (acquire t w) = creatingFor w @ [nextId w]
        \<and> newSessionsRequested (acquire t w) = newSessionsRequested w + 1
        \<and> waiters (acquire t w) = waiters w
        \<and> settled (acquire t w) = settled w)
   \<and> (find_free w = None \<and> \<not> has_capacity w \<longrightarrow>
        waiters (acquire t w) = waiters w @ [nextId w]
        \<and> creatingFor (acquire t w) = creatingFor w
        \<and> newSessionsRequested (acquire t w) = newSessionsRequested w
        \<and> settled (acquire t w) = settled w)
   \<and> (find_free w = Some a \<longrightarrow>
        settled (acquire t w) = settled w @ [(nextId w, Resolved a)]
        \<and> creatingFor (acquire t w) = creatingFor w
        \<and> newSessionsRequested (acquire t w) = newSessionsRequested w
        \<and> waiters (acquire t w) = waiters w)
   \<and> sessions (acquire t w) = sessions w
   \<and> (c \<in> set (creatingFor (step e w)) \<and> c \<notin> set (creatingFor w) \<longrightarrow>
        (\<exists>t'. e = Acquire t') \<and> find_free w = None \<and> has_capacity w)
   \<and> (\<not> set (sessions (step e w)) \<subseteq> set (sessions w) \<longrightarrow>
        (\<exists>sid. e = PrepopulateCreated sid \<and> 0 < prepopulating w)
        \<or> (\<exists>c' sid. e = SessionCreated c' sid \<and> c' \<in> set (creatingFor w)))"
proof -
  have 1: "find_free w = None \<and> has_capacity w \<longrightarrow>
        creatingFor (acquire t w) = creatingFor w @ [nextId w]
        \<and> newSessionsRequested (acquire t w) = newSessionsRequested w + 1
        \<and> waiters (acquire t w) = waiters w
        \<and> settled (acquire t w) = settled w"
    using acquire_branches [of w t a] by simp
  have 2: "find_free w = None \<and> \<not> has_capacity w \<longrightarrow>
        waiters (acquire t w) = waiters w @ [nextId w]
        \<and> creatingFor (acquire t w) = creatingFor w
        \<and> newSessionsRequested (acquire t w) = newSessionsRequested w
        \<and> settled (acquire t w) = settled w"
    using acquire_branches [of w t a] by simp
  have 3: "find_free w = Some a \<longrightarrow>
        settled (acquire t w) = settled w @ [(nextId w, Resolved a)]
        \<and> creatingFor (acquire t w) = creatingFor w
        \<and> newSessionsRequested (acquire t w) = newSessionsRequested w
        \<and> waiters (acquire t w) = waiters w"
    using acquire_branches [of w t a] by (simp add: settle_def update_session_def)
  have 4: "sessions (acquire t w) = sessions w"
    by (simp add: acquire_def Let_def settle_def update_session_def split: option.splits)
  have 5: "c \<in> set (creatingFor (step e w)) \<and> c \<notin> set (creatingFor w) \<longrightarrow>
        (\<exists>t'. e = Acquire t') \<and> find_free w = None \<and> has_capacity w"
    using creatingFor_step [of c e w] by blast
  have 6: "\<not> set (sessions (step e w)) \<subseteq> set (sessions w) \<longrightarrow>
        (\<exists>sid. e = PrepopulateCreated sid \<and> 0 < prepopulating w)
        \<or> (\<exists>c' sid. e = SessionCreated c' sid \<and> c' \<in> set (creatingFor w))"
    using sessions_step [of e w] by blast
  from 1 2 3 4 5 6 show ?thesis by (simp only: has_capacity_def simp_thms)
qed

theorem acquire_creates_only_with_capacity_witness:
  "find_free (new_SessionPool 0 1) = None
   \<and> has_capacity (new_SessionPool 0 1)
   \<and> creatingFor (acquire 0 (new_SessionPool 0 1)) = [0]
   \<and> newSessionsRequested (acquire 0 (new_SessionPool 0 1)) = 1
   \<and> find_free (run [Acquire 0, SessionCreated 0 ''s1'', Acquire 0, SessionCreated 1 ''s2'']
        (new_SessionPool 0 1)) = None
   \<and> \<not> has_capacity (run [Acquire 0, SessionCreated 0 ''s1'', Acquire 0, SessionCreated 1 ''s2'']
        (new_SessionPool 0 1))
   \<and> waiters (acquire 100 (run [Acquire 0, SessionCreated 0 ''s1'', Acquire 0, SessionCreated 1 ''s2'']
        (new_SessionPool 0 1))) = [2]
   \<and> creatingFor (acquire 100 (run [Acquire 0, SessionCreated 0 ''s1'', Acquire 0, SessionCreated 1 ''s2'']
        (new_SessionPool 0 1))) = []
   \<and> find_free (run [PrepopulateCreated ''s1''] (new_SessionPool 1 1)) = Some 0
   \<and> settled (acquire 0 (run [PrepopulateCreated ''s1''] (new_SessionPool 1 1))) = [(0, Resolved 0)]
   \<and> creatingFor (acquire 0 (run [PrepopulateCreated ''s1''] (new_SessionPool 1 1))) = []
   \<and> 0 \<in> set (creatingFor (step (Acquire 0) (new_SessionPool 0 1)))
   \<and> 0 \<notin> set (creatingFor (new_SessionPool 0 1))
   \<and> \<not> set (sessions (step (PrepopulateCreated ''s1'') (new_SessionPool 1 1)))
        \<subseteq> set (sessions (new_SessionPool 1 1))
   \<and> 0 < prepopulating (new_SessionPool 1 1)"
  using acquire_creates_only_with_capacity
          [of "new_SessionPool 0 1" 0 0 0 "Acquire 0"]
        acquire_creates_only_with_capacity
          [of "run [Acquire 0, SessionCreated 0 ''s1'', Acquire 0, SessionCreated 1 ''s2'']
                 (new_SessionPool 0 1)" 100 0 0 "Acquire 0"]
        acquire_creates_only_with_capacity
          [of "run [PrepopulateCreated ''s1''] (new_SessionPool 1 1)" 0 0 0 "Acquire 0"]
        acquire_creates_only_with_capacity
          [of "new_SessionPool 1 1" 0 0 0 "PrepopulateCreated ''s1''"]
  by (simp add: pool_defs)

text \<open>
  With \<open>maxLimit = 1\<close>: a session is created for the first \<open>acquire\<close>, its holder's
  callback fails and \<open>deleteSession\<close> starts the deletion; the next \<open>acquire\<close> finds
  \<open>1 + 0 - 1 \<le> 1\<close> and creates a second session while the first is still in the set.
\<close>

theorem sessions_exceed_maxLimit_counterexample:
  "\<not> int (length (sessions
        (run [Acquire 0, SessionCreated 0 ''s1'', DeleteSession 0, Acquire 0, SessionCreated 1 ''s2'']
           (new_SessionPool 0 1))))
      \<le> maxLimit
        (run [Acquire 0, SessionCreated 0 ''s1'', DeleteSession 0, Acquire 0, SessionCreated 1 ''s2'']
           (new_SessionPool 0 1))"
  by (simp add: pool_defs)

subsection \<open>\<open>withSession\<close>\<close>

lemma release_session:
  "a < length (heap w) \<Longrightarrow>
   isDeleted (heap (release a w) ! a) = isDeleted (heap w ! a)
   \<and> (waiters w = [] \<longrightarrow> free (heap (release a w) ! a) \<and> settled (release a w) = settled w)
   \<and> (waiters w = c # cs \<longrightarrow>
        settled (release a w) = settled w @ [(c, Resolved a)]
        \<and> waiters (release a w) = cs
        \<and> \<not> free (heap (release a w) ! a))"
  by (cases "waiters w")
     (simp_all add: release_def on_SESSION_RELEASE_def update_session_def waiter_def settle_def
        clearTimeout_def isDeleted_def Session_release_def Session_acquire_def)

lemma deleteSession_session:
  "a < length (heap w) \<Longrightarrow>
   isDeleted (heap (snd (deleteSession a w)) ! a)
   \<and> free (heap (snd (deleteSession a w)) ! a) = free (heap w ! a)
   \<and> (\<not> isDeleted (heap w ! a) \<longrightarrow>
        issued (snd (deleteSession a w)) = issued w @ [DeleteSessionRpc (sessionId (heap w ! a))]
        \<and> sessionsBeingDeleted (snd (deleteSession a w)) = sessionsBeingDeleted w + 1
        \<and> deleting (snd (deleteSession a w)) = deleting w @ [a])
   \<and> (isDeleted (heap w ! a) \<longrightarrow> snd (deleteSession a w) = w)"
  by (simp add: deleteSession_def Session_delete_begin_def Session_delete_def isDeleted_def)

text \<open>
  C3. Once \<open>withSession\<close> holds the session \<open>a\<close> that \<open>acquire\<close> gave it and the callback
  has settled, in whatever state the pool is then. If the callback returned \<open>r\<close>,
  \<open>withSession\<close> returns \<open>r\<close> and the session is released: nothing is deleted and no request
  is sent, and the session is back with its free flag set, or, when a waiter is queued,
  handed to the first waiter. If the callback threw \<open>e\<close>, \<open>withSession\<close> throws \<open>e\<close> and the
  session is deleted and not released: its free flag, the waiters and the settled promises
  are as before, and unless it was deleted already one \<open>DeleteSession\<close> request goes out
  and the pool counts one more deletion. If \<open>acquire\<close> rejects, \<open>withSession\<close> rejects with
  the same error and the pool is untouched.
\<close>

theorem withSession_release_or_delete:
  "a < length (heap w) \<Longrightarrow>
   fst (withSession_resume a (Inr r) w) = Inr r
   \<and> snd (withSession_resume a (Inr r) w) = release a w
   \<and> isDeleted (heap (release a w) ! a) = isDeleted (heap w ! a)
   \<and> issued (release a w) = issued w
   \<and> sessionsBeingDeleted (release a w) = sessionsBeingDeleted w
   \<and> deleting (release a w) = deleting w
   \<and> sessions (release a w) = sessions w
   \<and> (waiters w = [] \<longrightarrow>
        free (heap (release a w) ! a)
        \<and> isFree (heap (release a w) ! a) = (\<not> isDeleted (heap w ! a))
        \<and> settled (release a w) = settled w)
   \<and> (waiters w = c # cs \<longrightarrow>
        settled (release a w) = settled w @ [(c, Resolved a)] \<and> waiters (release a w) = cs)
   \<and> fst (withSession_resume a (Inl e) w) = Inl e
   \<and> isDeleted (heap (snd (withSession_resume a (Inl e) w)) ! a)
   \<and> free (heap (snd (withSession_resume a (Inl e) w)) ! a) = free (heap w ! a)
   \<and> \<not> isFree (heap (snd (withSession_resume a (Inl e) w)) ! a)
   \<and> waiters (snd (withSession_resume a (Inl e) w)) = waiters w
   \<and> settled (snd (withSession_resume a (Inl e) w)) = settled w
   \<and> sessions (snd (withSession_resume a (Inl e) w)) = sessions w
   \<and> (\<not> isDeleted (heap w ! a) \<longrightarrow>
        issued (snd (withSession_resume a (Inl e) w))
          = issued w @ [DeleteSessionRpc (sessionId (heap w ! a))]
        \<and> sessionsBeingDeleted (snd (withSession_resume a (Inl e) w)) = sessionsBeingDeleted w + 1
        \<and> deleting (snd (withSession_resume a (Inl e) w)) = deleting w @ [a])
   \<and> withSession_acquired (Resolved a) cb w = withSession_resume a cb w
   \<and> withSession_acquired (Rejected e) cb w = (Inl e, w)"
proof -
  assume a: "a < length (heap w)"
  from release_session [OF a, of c cs] release_frame [of a w]
  have ok: "isDeleted (heap (release a w) ! a) = isDeleted (heap w ! a)
   \<and> issued (release a w) = issued w
   \<and> sessionsBeingDeleted (release a w) = sessionsBeingDeleted w
   \<and> deleting (release a w) = deleting w
   \<and> sessions (release a w) = sessions w
   \<and> (waiters w = [] \<longrightarrow>
        free (heap (release a w) ! a)
        \<and> isFree (heap (release a w) ! a) = (\<not> isDeleted (heap w ! a))
        \<and> settled (release a w) = settled w)
   \<and> (waiters w = c # cs \<longrightarrow>
        settled (release a w) = settled w @ [(c, Resolved a)] \<and> waiters (release a w) = cs)"
    by (simp add: isFree_def)
  from deleteSession_session [OF a] deleteSession_frame [of a w]
  have err: "isDeleted (heap (snd (deleteSession a w)) ! a)
   \<and> free (heap (snd (deleteSession a w)) ! a) = free (heap w ! a)
   \<and> \<not> isFree (heap (snd (deleteSession a w)) ! a)
   \<and> waiters (snd (deleteSession a w)) = waiters w
   \<and> settled (snd (deleteSession a w)) = settled w
   \<and> sessions (snd (deleteSession a w)) = sessions w
   \<and> (\<not> isDeleted (heap w ! a) \<longrightarrow>
        issued (snd (deleteSession a w)) = issued w @ [DeleteSessionRpc (sessionId (heap w ! a))]
        \<and> sessionsBeingDeleted (snd (deleteSession a w)) = sessionsBeingDeleted w + 1
        \<and> deleting (snd (deleteSession a w)) = deleting w @ [a])"
    by (simp add: isFree_def)
  from ok err show ?thesis
    by (simp add: withSession_resume_def withSession_acquired_def)
qed

theorem withSession_release_or_delete_witness:
  "0 < length (heap (run [PrepopulateCreated ''s1'', Acquire 0] (new_SessionPool 1 1)))
   \<and> waiters (run [PrepopulateCreated ''s1'', Acquire 0] (new_SessionPool 1 1)) = []
   \<and> fst (withSession_resume 0 (Inr (7::nat))
        (run [PrepopulateCreated ''s1'', Acquire 0] (new_SessionPool 1 1))) = Inr 7
   \<and> isFree (heap (snd (withSession_resume 0 (Inr (7::nat))
        (run [PrepopulateCreated ''s1'', Acquire 0] (new_SessionPool 1 1)))) ! 0)
   \<and> fst (withSession_resume 0 (Inl ''boom'' :: string + nat)
        (run [PrepopulateCreated ''s1'', Acquire 0] (new_SessionPool 1 1))) = Inl ''boom''
   \<and> isDeleted (heap (snd (withSession_resume 0 (Inl ''boom'' :: string + nat)
        (run [PrepopulateCreated ''s1'', Acquire 0] (new_SessionPool 1 1)))) ! 0)
   \<and> \<not> free (heap (snd (withSession_resume 0 (Inl ''boom'' :: string + nat)
        (run [PrepopulateCreated ''s1'', Acquire 0] (new_SessionPool 1 1)))) ! 0)
   \<and> issued (snd (withSession_resume 0 (Inl ''boom'' :: string + nat)
        (run [PrepopulateCreated ''s1'', Acquire 0] (new_SessionPool 1 1))))
       = [DeleteSessionRpc ''s1'']
   \<and> waiters (run [Acquire 0, SessionCreated 0 ''s1'', Acquire 0, SessionCreated 1 ''s2'', Acquire 100]
        (new_SessionPool 0 1)) = [2]
   \<and> settled (release 0
        (run [Acquire 0, SessionCreated 0 ''s1'', Acquire 0, SessionCreated 1 ''s2'', Acquire 100]
          (new_SessionPool 0 1)))
       = [(0, Resolved 0), (1, Resolved 1), (2, Resolved 0)]"
  using withSession_release_or_delete
          [of 0 "run [PrepopulateCreated ''s1'', Acquire 0] (new_SessionPool 1 1)"
              "7::nat" 0 "[]" "''boom''" "Inr 7"]
        withSession_release_or_delete
          [of 0 "run [Acquire 0, SessionCreated 0 ''s1'', Acquire 0, SessionCreated 1 ''s2'', Acquire 100]
                   (new_SessionPool 0 1)"
              "7::nat" 2 "[]" "''boom''" "Inr 7"]
  by (simp add: pool_defs withSession_resume_def)

subsection \<open>Waiters, timers and settled promises\<close>

lemma indexOf_in_range:
  "x \<in> set xs \<Longrightarrow> 0 \<le> indexOf xs x \<and> indexOf xs x < int (length xs)"
  by (induction xs) (auto simp add: Let_def)

lemma splice1_in_range:
  "0 \<le> i \<Longrightarrow> i < int (length xs) \<Longrightarrow> splice1 i xs = take (nat i) xs @ drop (Suc (nat i)) xs"
  by (simp add: splice1_def Let_def min_def)

lemma splice1_indexOf:
  "x \<in> set xs \<Longrightarrow> splice1 (indexOf xs x) xs = remove1 x xs"
proof (induction xs)
  case Nil
  then show ?case by simp
next
  case (Cons y ys)
  show ?case
  proof (cases "y = x")
    case True
    then show ?thesis by (simp add: splice1_def)
  next
    case False
    with Cons.prems have in_ys: "x \<in> set ys" by simp
    from indexOf_in_range [OF in_ys]
    have r: "0 \<le> indexOf ys x" "indexOf ys x < int (length ys)" by simp_all
    then have "splice1 (indexOf ys x + 1) (y # ys) = y # splice1 (indexOf ys x) ys"
      by (simp add: splice1_in_range nat_add_distrib)
    with False r Cons.IH [OF in_ys] show ?thesis by (simp add: Let_def)
  qed
qed

lemma timer_keys_filter:
  "set (map fst (filter (\<lambda>(c', t). c' \<noteq> c) ts)) = set (map fst ts) - {c}"
  by (induction ts) auto

lemma map_of_filter_self:
  "map_of (filter (\<lambda>(c', t). c' \<noteq> c) ts) c = None"
  by (induction ts) auto

lemma pool_inv_frame:
  "waiters w' = waiters w \<Longrightarrow> creatingFor w' = creatingFor w \<Longrightarrow> settled w' = settled w \<Longrightarrow>
   timers w' = timers w \<Longrightarrow> nextId w' = nextId w \<Longrightarrow> pool_inv w \<Longrightarrow> pool_inv w'"
  by (simp add: pool_inv_def)

lemma pool_inv_new: "pool_inv (new_SessionPool mn mx)"
  by (simp add: pool_inv_def new_SessionPool_def)

lemma pool_inv_acquire: "pool_inv w \<Longrightarrow> pool_inv (acquire t w)"
proof -
  assume inv: "pool_inv w"
  then have fresh: "nextId w \<notin> set (waiters w)" "nextId w \<notin> set (creatingFor w)"
    "nextId w \<notin> set (map fst (settled w))"
    by (auto simp add: pool_inv_def)
  show ?thesis
  proof (cases "find_free w")
    case (Some a)
    with acquire_branches [of w t a] inv fresh show ?thesis
      by (auto simp add: pool_inv_def settle_def update_session_def less_Suc_eq)
  next
    case None
    show ?thesis
    proof (cases "has_capacity w")
      case True
      with None acquire_branches [of w t 0] inv fresh show ?thesis
        by (auto simp add: pool_inv_def less_Suc_eq)
    next
      case False
      with None acquire_branches [of w t 0] inv fresh show ?thesis
        by (auto simp add: pool_inv_def less_Suc_eq)
    qed
  qed
qed


lemma acquire_created_fields:
  "c \<in> set (creatingFor w) \<Longrightarrow>
   waiters (acquire_created c sid w) = waiters w
   \<and> creatingFor (acquire_created c sid w) = remove1 c (creatingFor w)
   \<and> settled (acquire_created c sid w) = settled w @ [(c, Resolved (length (heap w)))]
   \<and> timers (acquire_created c sid w) = timers w
   \<and> nextId (acquire_created c sid w) = nextId w"
  by (simp add: acquire_created_def createSession_resume_def Let_def settle_def update_session_def)

lemma acquire_create_failed_fields:
  "c \<in> set (creatingFor w) \<Longrightarrow>
   waiters (acquire_create_failed c err w) = waiters w
   \<and> creatingFor (acquire_create_failed c err w) = remove1 c (creatingFor w)
   \<and> settled (acquire_create_failed c err w) = settled w @ [(c, Rejected err)]
   \<and> timers (acquire_create_failed c err w) = timers w
   \<and> nextId (acquire_create_failed c err w) = nextId w"
  by (simp add: acquire_create_failed_def settle_def)

lemma pool_inv_move_created:
  assumes inv: "pool_inv w" and c: "c \<in> set (creatingFor w)"
    and f: "waiters w' = waiters w" "creatingFor w' = remove1 c (creatingFor w)"
      "settled w' = settled w @ [(c, out)]" "timers w' = timers w" "nextId w' = nextId w"
  shows "pool_inv w'"
proof -
  from inv have d: "distinct (waiters w)" "distinct (creatingFor w)" "distinct (map fst (settled w))"
    and dj: "set (waiters w) \<inter> set (creatingFor w) = {}"
      "set (waiters w) \<inter> set (map fst (settled w)) = {}"
      "set (creatingFor w) \<inter> set (map fst (settled w)) = {}"
    and lt: "\<forall>c \<in> set (waiters w) \<union> set (creatingFor w) \<union> set (map fst (settled w)). c < nextId w"
    and tm: "set (map fst (timers w)) \<subseteq> set (waiters w)"
    by (auto simp add: pool_inv_def)
  from d(2) have "c \<notin> set (remove1 c (creatingFor w))" by simp
  moreover have "set (remove1 c (creatingFor w)) \<subseteq> set (creatingFor w)" by (rule set_remove1_subset)
  ultimately show ?thesis using d dj lt tm c f
    by (auto simp add: pool_inv_def)
qed

lemma pool_inv_acquire_created: "pool_inv w \<Longrightarrow> pool_inv (acquire_created c sid w)"
proof (cases "c \<in> set (creatingFor w)")
  case False
  assume "pool_inv w"
  with False show ?thesis by (simp add: acquire_created_def)
next
  case True
  assume inv: "pool_inv w"
  from acquire_created_fields [OF True, of sid] show ?thesis
    by (intro pool_inv_move_created [OF inv True]) simp_all
qed

lemma pool_inv_acquire_create_failed: "pool_inv w \<Longrightarrow> pool_inv (acquire_create_failed c err w)"
proof (cases "c \<in> set (creatingFor w)")
  case False
  assume "pool_inv w"
  with False show ?thesis by (simp add: acquire_create_failed_def)
next
  case True
  assume inv: "pool_inv w"
  from acquire_create_failed_fields [OF True, of err] show ?thesis
    by (intro pool_inv_move_created [OF inv True]) simp_all
qed

lemma waiter_fields:
  "waiters (waiter c a w) = waiters w
   \<and> creatingFor (waiter c a w) = creatingFor w
   \<and> settled (waiter c a w) = settled w @ [(c, Resolved a)]
   \<and> timers (waiter c a w) = filter (\<lambda>(c', t). c' \<noteq> c) (timers w)
   \<and> nextId (waiter c a w) = nextId w"
  by (simp add: waiter_def settle_def update_session_def clearTimeout_def)

lemma release_fields:
  "(waiters w = [] \<longrightarrow>
      waiters (release a w) = [] \<and> settled (release a w) = settled w
      \<and> timers (release a w) = timers w)
   \<and> (waiters w = c # cs \<longrightarrow>
      waiters (release a w) = cs \<and> settled (release a w) = settled w @ [(c, Resolved a)]
      \<and> timers (release a w) = filter (\<lambda>(c', t). c' \<noteq> c) (timers w))"
  by (simp add: release_def on_SESSION_RELEASE_def update_session_def waiter_fields)

lemma pool_inv_release: "pool_inv w \<Longrightarrow> pool_inv (release a w)"
proof (cases "waiters w")
  case Nil
  assume "pool_inv w"
  with Nil release_fields [of w a] release_frame [of a w] show ?thesis
    by (simp add: pool_inv_def)
next
  case (Cons c cs)
  assume inv: "pool_inv w"
  from Cons release_fields [of w a c cs] release_frame [of a w]
  have f: "waiters (release a w) = cs" "settled (release a w) = settled w @ [(c, Resolved a)]"
    "timers (release a w) = filter (\<lambda>(c', t). c' \<noteq> c) (timers w)"
    "creatingFor (release a w) = creatingFor w" "nextId (release a w) = nextId w"
    by simp_all
  from inv Cons show ?thesis
    by (auto simp add: pool_inv_def f timer_keys_filter simp del: set_map)
qed

lemma timer_fires_fields:
  "map_of (timers w) c = Some t \<Longrightarrow>
   waiters (timer_fires c w) = splice1 (indexOf (waiters w) c) (waiters w)
   \<and> settled (timer_fires c w) = settled w @ [(c, Rejected (timeout_message t))]
   \<and> timers (timer_fires c w) = filter (\<lambda>(c', t). c' \<noteq> c) (timers w)"
  by (simp add: timer_fires_def settle_def clearTimeout_def)

lemma armed_timer_is_queued:
  "pool_inv w \<Longrightarrow> map_of (timers w) c = Some t \<Longrightarrow> c \<in> set (waiters w)"
proof -
  assume inv: "pool_inv w" and m: "map_of (timers w) c = Some t"
  from map_of_SomeD [OF m] have "c \<in> set (map fst (timers w))" by force
  with inv show ?thesis by (auto simp add: pool_inv_def)
qed

lemma pool_inv_timer_fires: "pool_inv w \<Longrightarrow> pool_inv (timer_fires c w)"
proof (cases "map_of (timers w) c")
  case None
  assume "pool_inv w"
  with None show ?thesis by (simp add: timer_fires_def)
next
  case (Some t)
  assume inv: "pool_inv w"
  from armed_timer_is_queued [OF inv Some] have q: "c \<in> set (waiters w)" .
  from timer_fires_fields [OF Some] splice1_indexOf [OF q] timer_fires_frame [of c w]
  have f: "waiters (timer_fires c w) = remove1 c (waiters w)"
    "settled (timer_fires c w) = settled w @ [(c, Rejected (timeout_message t))]"
    "timers (timer_fires c w) = filter (\<lambda>(c', t). c' \<noteq> c) (timers w)"
    "creatingFor (timer_fires c w) = creatingFor w" "nextId (timer_fires c w) = nextId w"
    by simp_all
  from inv q show ?thesis
    by (auto simp add: pool_inv_def f timer_keys_filter simp del: set_map)
qed


lemma pool_inv_step: "pool_inv w \<Longrightarrow> pool_inv (step e w)"
proof (cases e)
  case (Acquire t)
  assume "pool_inv w" with Acquire show ?thesis by (simp add: pool_inv_acquire)
next
  case (PrepopulateCreated sid)
  assume "pool_inv w" with PrepopulateCreated show ?thesis
    by (simp add: pool_inv_def createSession_resume_def Let_def)
next
  case PrepopulateFailed
  assume "pool_inv w" with PrepopulateFailed show ?thesis by (simp add: pool_inv_def)
next
  case (SessionCreated c sid)
  assume "pool_inv w" with SessionCreated show ?thesis by (simp add: pool_inv_acquire_created)
next
  case (CreateFailed c err)
  assume "pool_inv w" with CreateFailed show ?thesis by (simp add: pool_inv_acquire_create_failed)
next
  case (Release a)
  assume "pool_inv w" with Release show ?thesis by (simp add: pool_inv_release)
next
  case (TimerFires c)
  assume "pool_inv w" with TimerFires show ?thesis by (simp add: pool_inv_timer_fires)
next
  case (DeleteSession a)
  assume inv: "pool_inv w"
  from deleteSession_frame [of a w] have "pool_inv (snd (deleteSession a w))"
    by (intro pool_inv_frame [OF _ _ _ _ _ inv]) simp_all
  with DeleteSession inv show ?thesis by simp
next
  case (DeleteResolved a)
  assume "pool_inv w" with DeleteResolved show ?thesis
    by (simp add: pool_inv_def delete_resolved_def)
next
  case (DeleteRejected a)
  assume "pool_inv w" with DeleteRejected show ?thesis
    by (simp add: pool_inv_def delete_rejected_def)
next
  case (CallSessionDelete a)
  assume "pool_inv w" with CallSessionDelete show ?thesis
    by (simp add: pool_inv_def Session_delete_begin_def Session_delete_def)
next
  case (CallSessionAcquire a)
  assume "pool_inv w" with CallSessionAcquire show ?thesis
    by (simp add: pool_inv_def update_session_def)
next
  case KeepAliveTick
  assume "pool_inv w" with KeepAliveTick show ?thesis
    by (simp add: pool_inv_def keepAlive_tick_def)
next
  case Destroy
  assume inv: "pool_inv w"
  from destroy_frame [of w] have "pool_inv (destroy w)"
    by (intro pool_inv_frame [OF _ _ _ _ _ inv]) simp_all
  with Destroy show ?thesis by simp
qed

lemma pool_inv_run: "pool_inv w \<Longrightarrow> pool_inv (run es w)"
proof (induction es arbitrary: w)
  case Nil
  then show ?case by (simp add: run_def)
next
  case (Cons e es)
  from Cons.IH [OF pool_inv_step [OF Cons.prems, of e]] show ?case by (simp add: run_def)
qed

lemma pool_inv_reachable: "pool_inv (run es (new_SessionPool mn mx))"
  by (rule pool_inv_run [OF pool_inv_new])

lemma digit_char_value:
  "k < 10 \<Longrightarrow> (of_char (''0123456789'' ! k) :: nat) - 48 = k"
proof -
  assume "k < 10"
  then have "k = 0 \<or> k = 1 \<or> k = 2 \<or> k = 3 \<or> k = 4 \<or> k = 5 \<or> k = 6 \<or> k = 7 \<or> k = 8 \<or> k = 9"
    by arith
  then show ?thesis by (elim disjE) simp_all
qed

lemma digit_char_not_minus:
  "k < 10 \<Longrightarrow> ''0123456789'' ! k \<noteq> CHR ''-''"
proof -
  assume "k < 10"
  then have "k = 0 \<or> k = 1 \<or> k = 2 \<or> k = 3 \<or> k = 4 \<or> k = 5 \<or> k = 6 \<or> k = 7 \<or> k = 8 \<or> k = 9"
    by arith
  then show ?thesis by (elim disjE) simp_all
qed

lemma decimal_value_snoc:
  "decimal_value (ds @ [ch]) = 10 * decimal_value ds + (of_char ch - 48)"
  by (simp add: decimal_value_def)

lemma decimal_value_digits: "decimal_value (digits n) = n"
proof (induction n rule: digits.induct)
  case (1 n)
  show ?case
  proof (cases "n < 10")
    case True
    then have "digits n = [''0123456789'' ! n]" by (subst digits.simps) simp
    with True digit_char_value [of n] show ?thesis by (simp add: decimal_value_def)
  next
    case False
    then have d: "digits n = digits (n div 10) @ [''0123456789'' ! (n mod 10)]"
      by (subst digits.simps) simp
    from False "1.IH" have "decimal_value (digits (n div 10)) = n div 10" by simp
    with d digit_char_value [of "n mod 10"] show ?thesis
      by (simp add: decimal_value_snoc)
  qed
qed

lemma digits_first: "\<exists>ch cs. digits n = ch # cs \<and> ch \<noteq> CHR ''-''"
proof (induction n rule: digits.induct)
  case (1 n)
  show ?case
  proof (cases "n < 10")
    case True
    then have "digits n = [''0123456789'' ! n]" by (subst digits.simps) simp
    with True digit_char_not_minus [of n] show ?thesis by simp
  next
    case False
    then have d: "digits n = digits (n div 10) @ [''0123456789'' ! (n mod 10)]"
      by (subst digits.simps) simp
    from False "1.IH" obtain ch cs where "digits (n div 10) = ch # cs" "ch \<noteq> CHR ''-''"
      by blast
    with d show ?thesis by simp
  qed
qed

lemma Number_parse_toString: "Number_parse (Number_toString i) = i"
proof (cases "i < 0")
  case True
  then show ?thesis
    by (simp add: Number_parse_def Number_toString_def decimal_value_digits del: digits.simps)
next
  case False
  obtain ch cs where d: "digits (nat i) = ch # cs" "ch \<noteq> CHR ''-''"
    using digits_first [of "nat i"] by blast
  from decimal_value_digits [of "nat i"] d have "decimal_value (ch # cs) = nat i" by simp
  with False d show ?thesis
    by (simp add: Number_parse_def Number_toString_def del: digits.simps)
qed

text \<open>
  C2. In every state \<open>w\<close> a pool can reach:
  \<^item> no promise of \<open>acquire\<close> has been settled twice;
  \<^item> an \<open>acquire(T)\<close> that finds no free session and no capacity queues its waiter last,
    with a timer for \<open>T\<close> armed when \<open>T\<close> is not 0, and settles nothing;
  \<^item> a timer is armed only for a waiter that is in the queue and has not been settled.
    When the timer fires, exactly that waiter leaves the queue, the others keep their
    order, its promise is rejected, and the timer is gone;
  \<^item> the rejection of a timer armed with \<open>T\<close>, for \<open>T\<close> within the safe integers, is the
    text \<open>No session became available within timeout of T ms\<close> with \<open>T\<close> in decimal:
    reading the number in the text back gives \<open>T\<close>;
  \<^item> when a session is released while waiters are queued, the first waiter, not settled
    before, leaves the queue and is resolved with that session, acquired for it, and its
    timer is cleared.
\<close>

theorem waiter_timeout_or_handover:
  "w = run es (new_SessionPool mn mx) \<Longrightarrow>
   distinct (map fst (settled w))
   \<and> (find_free w = None \<and> \<not> has_capacity w \<longrightarrow>
        waiters (acquire T w) = waiters w @ [nextId w]
        \<and> settled (acquire T w) = settled w
        \<and> nextId w \<notin> set (waiters w)
        \<and> (T \<noteq> 0 \<longrightarrow> map_of (timers (acquire T w)) (nextId w) = Some T))
   \<and> (map_of (timers w) c = Some T \<longrightarrow>
        c \<in> set (waiters w)
        \<and> c \<notin> set (map fst (settled w))
        \<and> waiters (timer_fires c w) = remove1 c (waiters w)
        \<and> c \<notin> set (waiters (timer_fires c w))
        \<and> (\<exists>msg. settled (timer_fires c w) = settled w @ [(c, Rejected msg)])
        \<and> map_of (timers (timer_fires c w)) c = None)
   \<and> (map_of (timers w) c = Some T \<and> \<bar>T\<bar> \<le> MAX_SAFE_INTEGER \<longrightarrow>
        settled (timer_fires c w)
          = settled w @ [(c, Rejected (''No session became available within timeout of ''
                                        @ Number_toString T @ '' ms''))]
        \<and> Number_parse (Number_toString T) = T)
   \<and> (a < length (heap w) \<and> waiters w = c # cs \<longrightarrow>
        c \<notin> set (map fst (settled w))
        \<and> settled (release a w) = settled w @ [(c, Resolved a)]
        \<and> waiters (release a w) = cs
        \<and> c \<notin> set (waiters (release a w))
        \<and> \<not> free (heap (release a w) ! a)
        \<and> map_of (timers (release a w)) c = None)
   \<and> distinct (map fst (settled (timer_fires c w)))
   \<and> distinct (map fst (settled (release a w)))"
proof -
  assume w: "w = run es (new_SessionPool mn mx)"
  then have inv: "pool_inv w" by (simp add: pool_inv_reachable)
  from inv have d: "distinct (waiters w)" "distinct (map fst (settled w))"
    and dj: "set (waiters w) \<inter> set (map fst (settled w)) = {}"
    and lt: "\<forall>c \<in> set (waiters w). c < nextId w"
    and tm: "set (map fst (timers w)) \<subseteq> set (waiters w)"
    by (auto simp add: pool_inv_def)
  have fresh: "nextId w \<notin> set (waiters w)" using lt by auto
  have c1: "find_free w = None \<and> \<not> has_capacity w \<longrightarrow>
        waiters (acquire T w) = waiters w @ [nextId w]
        \<and> settled (acquire T w) = settled w
        \<and> nextId w \<notin> set (waiters w)
        \<and> (T \<noteq> 0 \<longrightarrow> map_of (timers (acquire T w)) (nextId w) = Some T)"
  proof -
    from fresh tm have "nextId w \<notin> set (map fst (timers w))" by blast
    then have "map_of (timers w) (nextId w) = None" by (simp add: map_of_eq_None_iff)
    with acquire_branches [of w T a] fresh show ?thesis
      by (simp add: map_add_Some_iff)
  qed
  have fire: "c \<in> set (waiters w)
        \<and> c \<notin> set (map fst (settled w))
        \<and> waiters (timer_fires c w) = remove1 c (waiters w)
        \<and> c \<notin> set (waiters (timer_fires c w))
        \<and> settled (timer_fires c w)
            = settled w @ [(c, Rejected (''No session became available within timeout of ''
                                          @ Number_toString T @ '' ms''))]
        \<and> map_of (timers (timer_fires c w)) c = None"
    if m: "map_of (timers w) c = Some T"
  proof -
    from armed_timer_is_queued [OF inv m] have q: "c \<in> set (waiters w)" .
    with dj have "c \<notin> set (map fst (settled w))" by blast
    moreover from timer_fires_fields [OF m] splice1_indexOf [OF q]
    have "waiters (timer_fires c w) = remove1 c (waiters w)"
      "settled (timer_fires c w) = settled w @ [(c, Rejected (timeout_message T))]"
      "timers (timer_fires c w) = filter (\<lambda>(c', t). c' \<noteq> c) (timers w)"
      by simp_all
    ultimately show ?thesis using q d(1)
      by (simp add: map_of_filter_self timeout_message_def)
  qed
  have c2: "map_of (timers w) c = Some T \<longrightarrow>
        c \<in> set (waiters w)
        \<and> c \<notin> set (map fst (settled w))
        \<and> waiters (timer_fires c w) = remove1 c (waiters w)
        \<and> c \<notin> set (waiters (timer_fires c w))
        \<and> (\<exists>msg. settled (timer_fires c w) = settled w @ [(c, Rejected msg)])
        \<and> map_of (timers (timer_fires c w)) c = None"
    using fire by blast
  have c3: "map_of (timers w) c = Some T \<and> \<bar>T\<bar> \<le> MAX_SAFE_INTEGER \<longrightarrow>
        settled (timer_fires c w)
          = settled w @ [(c, Rejected (''No session became available within timeout of ''
                                        @ Number_toString T @ '' ms''))]
        \<and> Number_parse (Number_toString T) = T"
    using fire Number_parse_toString [of T] by blast
  have c4: "a < length (heap w) \<and> waiters w = c # cs \<longrightarrow>
        c \<notin> set (map fst (settled w))
        \<and> settled (release a w) = settled w @ [(c, Resolved a)]
        \<and> waiters (release a w) = cs
        \<and> c \<notin> set (waiters (release a w))
        \<and> \<not> free (heap (release a w) ! a)
        \<and> map_of (timers (release a w)) c = None"
  proof (intro impI)
    assume "a < length (heap w) \<and> waiters w = c # cs"
    then have h: "a < length (heap w)" "waiters w = c # cs" by simp_all
    from h(2) dj have "c \<notin> set (map fst (settled w))" by auto
    moreover from h(2) d(1) have "c \<notin> set cs" by simp
    ultimately show "c \<notin> set (map fst (settled w))
        \<and> settled (release a w) = settled w @ [(c, Resolved a)]
        \<and> waiters (release a w) = cs
        \<and> c \<notin> set (waiters (release a w))
        \<and> \<not> free (heap (release a w) ! a)
        \<and> map_of (timers (release a w)) c = None"
      using release_fields [of w a c cs] release_session [OF h(1), of c cs] h(2)
      by (simp add: map_of_filter_self)
  qed
  have c5: "distinct (map fst (settled (timer_fires c w)))"
    using pool_inv_timer_fires [OF inv, of c] by (simp add: pool_inv_def)
  have c6: "distinct (map fst (settled (release a w)))"
    using pool_inv_release [OF inv, of a] by (simp add: pool_inv_def)
  show ?thesis
    by (rule conjI d(2) c1 c2 c3 c4 c5 c6)+
qed

theorem waiter_timeout_or_handover_witness:
  "find_free (run [Acquire 0, SessionCreated 0 ''s1'', Acquire 0, SessionCreated 1 ''s2'', Acquire 100, Acquire 50]
        (new_SessionPool 0 1)) = None
   \<and> \<not> has_capacity (run [Acquire 0, SessionCreated 0 ''s1'', Acquire 0, SessionCreated 1 ''s2'', Acquire 100, Acquire 50]
        (new_SessionPool 0 1))
   \<and> waiters (run [Acquire 0, SessionCreated 0 ''s1'', Acquire 0, SessionCreated 1 ''s2'', Acquire 100, Acquire 50]
        (new_SessionPool 0 1)) = [2, 3]
   \<and> waiters (acquire 70 (run [Acquire 0, SessionCreated 0 ''s1'', Acquire 0, SessionCreated 1 ''s2'', Acquire 100, Acquire 50]
        (new_SessionPool 0 1))) = [2, 3, 4]
   \<and> map_of (timers (acquire 70 (run [Acquire 0, SessionCreated 0 ''s1'', Acquire 0, SessionCreated 1 ''s2'', Acquire 100, Acquire 50]
        (new_SessionPool 0 1)))) 4 = Some 70
   \<and> map_of (timers (run [Acquire 0, SessionCreated 0 ''s1'', Acquire 0, SessionCreated 1 ''s2'', Acquire 100, Acquire 50]
        (new_SessionPool 0 1))) 2 = Some 100
   \<and> \<bar>100\<bar> \<le> MAX_SAFE_INTEGER
   \<and> waiters (timer_fires 2 (run [Acquire 0, SessionCreated 0 ''s1'', Acquire 0, SessionCreated 1 ''s2'', Acquire 100, Acquire 50]
        (new_SessionPool 0 1))) = [3]
   \<and> settled (timer_fires 2 (run [Acquire 0, SessionCreated 0 ''s1'', Acquire 0, SessionCreated 1 ''s2'', Acquire 100, Acquire 50]
        (new_SessionPool 0 1)))
       = [(0, Resolved 0), (1, Resolved 1),
          (2, Rejected ''No session became available within timeout of 100 ms'')]
   \<and> map_of (timers (timer_fires 2 (run [Acquire 0, SessionCreated 0 ''s1'', Acquire 0, SessionCreated 1 ''s2'', Acquire 100, Acquire 50]
        (new_SessionPool 0 1)))) 2 = None
   \<and> map_of (timers (run [Acquire 0, SessionCreated 0 ''s1'', Acquire 0, SessionCreated 1 ''s2'', Acquire 100, Acquire 50]
        (new_SessionPool 0 1))) 3 = Some 50
   \<and> \<bar>50\<bar> \<le> MAX_SAFE_INTEGER
   \<and> waiters (timer_fires 3 (run [Acquire 0, SessionCreated 0 ''s1'', Acquire 0, SessionCreated 1 ''s2'', Acquire 100, Acquire 50]
        (new_SessionPool 0 1))) = [2]
   \<and> settled (timer_fires 3 (run [Acquire 0, SessionCreated 0 ''s1'', Acquire 0, SessionCreated 1 ''s2'', Acquire 100, Acquire 50]
        (new_SessionPool 0 1)))
       = [(0, Resolved 0), (1, Resolved 1),
          (3, Rejected ''No session became available within timeout of 50 ms'')]
   \<and> Number_parse ''50'' = 50
   \<and> 0 < length (heap (run [Acquire 0, SessionCreated 0 ''s1'', Acquire 0, SessionCreated 1 ''s2'', Acquire 100, Acquire 50]
        (new_SessionPool 0 1)))
   \<and> settled (release 0 (run [Acquire 0, SessionCreated 0 ''s1'', Acquire 0, SessionCreated 1 ''s2'', Acquire 100, Acquire 50]
        (new_SessionPool 0 1))) = [(0, Resolved 0), (1, Resolved 1), (2, Resolved 0)]
   \<and> waiters (release 0 (run [Acquire 0, SessionCreated 0 ''s1'', Acquire 0, SessionCreated 1 ''s2'', Acquire 100, Acquire 50]
        (new_SessionPool 0 1))) = [3]
   \<and> map_of (timers (release 0 (run [Acquire 0, SessionCreated 0 ''s1'', Acquire 0, SessionCreated 1 ''s2'', Acquire 100, Acquire 50]
        (new_SessionPool 0 1)))) 2 = None
   \<and> distinct (map fst (settled (release 0 (run [Acquire 0, SessionCreated 0 ''s1'', Acquire 0, SessionCreated 1 ''s2'', Acquire 100, Acquire 50]
        (new_SessionPool 0 1)))))"
  using waiter_timeout_or_handover
          [where w = "(run [Acquire 0, SessionCreated 0 ''s1'', Acquire 0, SessionCreated 1 ''s2'', Acquire 100, Acquire 50]
        (new_SessionPool 0 1))"
             and es = "[Acquire 0, SessionCreated 0 ''s1'', Acquire 0, SessionCreated 1 ''s2'',
                        Acquire 100, Acquire 50]"
             and mn = 0 and mx = 1 and T = 70 and c = 2 and a = 0 and cs = "[3]"]
        waiter_timeout_or_handover
          [where w = "(run [Acquire 0, SessionCreated 0 ''s1'', Acquire 0, SessionCreated 1 ''s2'', Acquire 100, Acquire 50]
        (new_SessionPool 0 1))"
             and es = "[Acquire 0, SessionCreated 0 ''s1'', Acquire 0, SessionCreated 1 ''s2'',
                        Acquire 100, Acquire 50]"
             and mn = 0 and mx = 1 and T = 100 and c = 2 and a = 0 and cs = "[3]"]
        waiter_timeout_or_handover
          [where w = "(run [Acquire 0, SessionCreated 0 ''s1'', Acquire 0, SessionCreated 1 ''s2'', Acquire 100, Acquire 50]
        (new_SessionPool 0 1))"
             and es = "[Acquire 0, SessionCreated 0 ''s1'', Acquire 0, SessionCreated 1 ''s2'',
                        Acquire 100, Acquire 50]"
             and mn = 0 and mx = 1 and T = 50 and c = 3 and a = 0 and cs = "[3]"]
  by (simp add: pool_defs MAX_SAFE_INTEGER_def)

end
